theory Spec2Isabelle
  imports Complex_Main
begin

section \<open>The active calculator of theforce/calculator/active.py\<close>

text \<open>
  The embedding follows \<^verbatim>\<open>ActiveCalculator\<close> method by method. A tensor of torch
  is a list of reals (one axis) or a list of rows (two axes); its entries are read as
  real numbers, so rounding, infinities and NaN are outside the model. Every
  exception that the calls of a method can raise is a value \<open>Inl e\<close> of its result.
  Writing the log file and the trajectory file is left out.
\<close>

subsection \<open>Errors\<close>

datatype error =
    RuntimeError      \<comment> \<open>torch: shapes that do not fit, \<^verbatim>\<open>torch.cat\<close> of no tensor\<close>
  | IndexError        \<comment> \<open>an index outside its list or tensor\<close>
  | NameError         \<comment> \<open>a loop variable read after a loop that never ran\<close>
  | TypeError         \<comment> \<open>arithmetic on \<^verbatim>\<open>None\<close>\<close>
  | BackendError      \<comment> \<open>a collective called while torch.distributed is not initialized\<close>

subsection \<open>Tensors\<close>

type_synonym vec = "real list"

text \<open>
  A tensor with two axes keeps the size of its second axis beside its rows: a tensor
  with no row still has columns in torch (\<^verbatim>\<open>torch.zeros(0, 5).size(1) == 5\<close>).
\<close>

record tensor2 =
  size1 :: nat
  entries :: "real list list"

definition size0 :: "tensor2 \<Rightarrow> nat" where
  "size0 t = length (entries t)"

definition dot :: "vec \<Rightarrow> vec \<Rightarrow> real" where
  "dot a b = sum_list (map2 (*) a b)"

text \<open>\<^verbatim>\<open>a @ v\<close> for a matrix and a vector.\<close>

definition matvec :: "tensor2 \<Rightarrow> vec \<Rightarrow> error + vec" where
  "matvec a v =
     (if size1 a \<noteq> length v then Inl RuntimeError
      else Inr (map (\<lambda>r. dot r v) (entries a)))"

text \<open>\<^verbatim>\<open>a @ b.T\<close>: entry \<open>(r, i)\<close> is the product of row \<open>r\<close> of \<open>a\<close> and row \<open>i\<close> of \<open>b\<close>.\<close>

definition matmul_T :: "tensor2 \<Rightarrow> tensor2 \<Rightarrow> error + tensor2" where
  "matmul_T a b =
     (if size1 a \<noteq> size1 b then Inl RuntimeError
      else Inr \<lparr>size1 = size0 b,
                entries = map (\<lambda>r. map (\<lambda>s. dot r s) (entries b)) (entries a)\<rparr>)"

text \<open>\<^verbatim>\<open>(b*b).sum(dim=0)\<close>: for every column the sum of the squares of its entries.\<close>

definition sqsum_dim0 :: "tensor2 \<Rightarrow> vec" where
  "sqsum_dim0 b = map (\<lambda>i. sum_list (map (\<lambda>r. (r ! i) * (r ! i)) (entries b))) [0..<size1 b]"

text \<open>\<^verbatim>\<open>t.sum(dim=1)\<close>: the sum of every row.\<close>

definition sum_dim1 :: "tensor2 \<Rightarrow> vec" where
  "sum_dim1 t = map sum_list (entries t)"

text \<open>
  \<^verbatim>\<open>c/alpha\<close> on two tensors of one axis: entry by entry when the sizes agree, and
  with torch's broadcasting when one of them has a single entry.
\<close>

definition tdiv :: "vec \<Rightarrow> vec \<Rightarrow> error + vec" where
  "tdiv c a =
     (if length c = length a then Inr (map2 (/) c a)
      else if length a = 1 then Inr (map (\<lambda>x. x / hd a) c)
      else if length c = 1 then Inr (map (\<lambda>y. hd c / y) a)
      else Inl RuntimeError)"

text \<open>\<^verbatim>\<open>torch.cat([a, x], dim=1)\<close>: the rows of \<open>x\<close> appended to the rows of \<open>a\<close>.\<close>

definition cat_dim1 :: "tensor2 \<Rightarrow> tensor2 \<Rightarrow> error + tensor2" where
  "cat_dim1 a x =
     (if size0 a \<noteq> size0 x then Inl RuntimeError
      else Inr \<lparr>size1 = size1 a + size1 x,
                entries = map2 (@) (entries a) (entries x)\<rparr>)"

text \<open>
  \<^verbatim>\<open>t.allclose(torch.ones([]))\<close> and \<^verbatim>\<open>x.isclose(torch.ones([]))\<close> with the default
  tolerances \<^verbatim>\<open>rtol=1e-05\<close>, \<^verbatim>\<open>atol=1e-08\<close>: \<open>\<bar>x - 1\<bar> \<le> atol + rtol * \<bar>1\<bar>\<close>.
\<close>

definition isclose_one :: "real \<Rightarrow> bool" where
  "isclose_one x = (\<bar>x - 1\<bar> \<le> 1 / 10 ^ 8 + (1 / 10 ^ 5) * \<bar>1\<bar>)"

definition allclose_one :: "vec \<Rightarrow> bool" where
  "allclose_one t = list_all isclose_one t"

text \<open>\<^verbatim>\<open>torch.finfo().tiny\<close> of the default type float32: the least positive normal number.\<close>

definition tiny :: real where
  "tiny = 1 / 2 ^ 126"

text \<open>
  \<^verbatim>\<open>torch.argsort(beta, descending=True)\<close>: the indices of \<open>beta\<close>, larger scores first.
  torch leaves the order of equal scores open; here equal scores keep the order of
  their indices.
\<close>

definition argsort_descending :: "vec \<Rightarrow> nat list" where
  "argsort_descending beta = sort_key (\<lambda>i. - (beta ! i)) [0..<length beta]"

subsection \<open>Configurations and local environments\<close>

text \<open>
  Modelled from the spec: \<^verbatim>\<open>TorchAtoms\<close> and \<^verbatim>\<open>Local\<close> (theforce/descriptor/atoms.py) are
  not among the sources. A local environment is a focal atom (its species \<open>number\<close>
  and its index) and the displacements of its neighbours. A configuration knows the
  number of its atoms, the global \<open>indices\<close> of the atoms this worker owns and their
  environments \<open>loc\<close> (what iterating over the configuration yields), the
  environments of all atoms (\<open>gathered\<close>), whether it is split across workers,
  positions, cell, and its volume: \<open>get_volume\<close> is \<open>None\<close> where
  \<^verbatim>\<open>get_volume()\<close> raises ValueError.
\<close>

record loc =
  number :: nat
  focal :: nat
  displacements :: "real list list"

record atoms =
  natoms :: nat
  indices :: "nat list"
  loc :: "loc list"
  gathered :: "loc list"
  is_distributed :: bool
  xyz :: "real list list"
  lll :: "real list list"
  get_volume :: "real option"

text \<open>
  Modelled from the spec: \<^verbatim>\<open>atoms.local(k)\<close> is the local environment of atom \<open>k\<close>,
  the entry \<open>k\<close> of the gathered environments.
\<close>

definition local_env :: "atoms \<Rightarrow> nat \<Rightarrow> error + loc" where
  "local_env a k = (if k < length (gathered a) then Inr (gathered a ! k) else Inl IndexError)"

text \<open>
  Modelled from the spec: \<^verbatim>\<open>first_of_each_atom_type\<close> is a method of the missing
  \<^verbatim>\<open>TorchAtoms\<close>. It picks one representative per distinct species present: the
  first atom of each species, in the order in which the species appear.
\<close>

fun first_of_each :: "nat list \<Rightarrow> nat \<Rightarrow> nat list \<Rightarrow> nat list" where
  "first_of_each seen j [] = []"
| "first_of_each seen j (z # zs) =
     (if z \<in> set seen then first_of_each seen (Suc j) zs
      else j # first_of_each (z # seen) (Suc j) zs)"

definition first_of_each_atom_type :: "atoms \<Rightarrow> nat list" where
  "first_of_each_atom_type a = first_of_each [] 0 (map number (gathered a))"

subsection \<open>The sparse model\<close>

text \<open>
  A snapshot is a configuration with the energy and forces it is labelled with
  (\<^verbatim>\<open>set_targets\<close> copies them from the calculator attached to the copy).
\<close>

record snapshot =
  conf :: atoms
  target_energy :: real
  target_forces :: "real list list"

record model =
  X :: "loc list"
  data :: "snapshot list"
  mu :: vec
  Mi :: tensor2
  choli :: tensor2
  species :: "nat list"

definition ndata :: "model \<Rightarrow> nat" where
  "ndata m = length (data m)"

subsection \<open>What the calculator calls but does not define\<close>

text \<open>
  The kernel, the reference calculator, automatic differentiation, the collective of
  torch.distributed and the linear algebra of the model are parameters:
  \<^item> \<open>kern_fn\<close>: the covariance of two local environments;
  \<^item> \<open>exact\<close>: energy and forces of the reference calculator;
  \<^item> \<open>autograd\<close>: what \<^verbatim>\<open>torch.autograd.grad\<close> returns for the scalar
    \<^verbatim>\<open>(cov@w).sum()\<close>, with respect to positions and to the cell (\<open>None\<close> where the
    scalar does not depend on them);
  \<^item> \<open>initialized\<close>: whether torch.distributed has a process group; \<open>peers0\<close>,
    \<open>peers1\<close>, \<open>peers2\<close>: the sum of what the other workers pass to an all-reduce
    when this worker passes a scalar, a tensor of one axis, a tensor of two axes;
  \<^item> \<open>posterior\<close>: the vectors and factors \<open>(mu, Mi, choli)\<close> the model derives from
    its inducing set and its data;
  \<^item> \<open>delta_e\<close>: by how much the predicted energy of a local environment changes
    when it joins the inducing set;
  \<^item> \<open>redundant\<close>: whether the model's filters (ediff, fdiff) find a snapshot
    redundant.
\<close>

record env =
  kern_fn :: "loc \<Rightarrow> loc \<Rightarrow> real"
  exact :: "atoms \<Rightarrow> real \<times> real list list"
  autograd :: "atoms \<Rightarrow> tensor2 \<Rightarrow> vec \<Rightarrow> real list list option \<times> real list list option"
  initialized :: bool
  peers0 :: "real \<Rightarrow> real"
  peers1 :: "vec \<Rightarrow> vec"
  peers2 :: "real list list \<Rightarrow> real list list"
  posterior :: "loc list \<Rightarrow> snapshot list \<Rightarrow> vec \<times> tensor2 \<times> tensor2"
  delta_e :: "model \<Rightarrow> loc \<Rightarrow> real"
  redundant :: "model \<Rightarrow> snapshot \<Rightarrow> real \<Rightarrow> real \<Rightarrow> bool"

text \<open>
  \<^verbatim>\<open>torch.distributed.all_reduce(t)\<close> replaces \<open>t\<close> by the sum of the tensors of all
  workers; it raises when no process group is initialized, and the tensors of all
  workers have one shape.
\<close>

definition all_reduce0 :: "env \<Rightarrow> real \<Rightarrow> error + real" where
  "all_reduce0 env t = (if \<not> initialized env then Inl BackendError else Inr (t + peers0 env t))"

definition all_reduce1 :: "env \<Rightarrow> vec \<Rightarrow> error + vec" where
  "all_reduce1 env t =
     (if \<not> initialized env then Inl BackendError
      else if length (peers1 env t) \<noteq> length t then Inl RuntimeError
      else Inr (map2 (+) t (peers1 env t)))"

definition all_reduce2 :: "env \<Rightarrow> real list list \<Rightarrow> error + real list list" where
  "all_reduce2 env t =
     (if \<not> initialized env then Inl BackendError
      else if map length (peers2 env t) \<noteq> map length t then Inl RuntimeError
      else Inr (map2 (map2 (+)) t (peers2 env t)))"

text \<open>
  Modelled from the spec: the kernel \<^verbatim>\<open>self.model.gp.kern\<close> is not among the sources.
  Entry \<open>(i, j)\<close> of \<^verbatim>\<open>kern(atoms, X)\<close> is the kernel value between the local
  environment of atom \<open>i\<close> and inducing environment \<open>j\<close>.
\<close>

definition kern :: "env \<Rightarrow> atoms \<Rightarrow> loc list \<Rightarrow> tensor2" where
  "kern env a xs =
     \<lparr>size1 = length xs, entries = map (\<lambda>l. map (kern_fn env l) xs) (loc a)\<rparr>"

subsection \<open>The calculator\<close>

record results =
  energy :: real
  forces :: "real list list"
  stress :: vec

record calc =
  model :: model
  ediff :: real
  fdiff :: real
  covdiff :: real
  bias :: "real option"
  bias_pot :: "vec option"
  step :: nat
  normalized :: "bool option"
  atoms :: atoms
  cov :: tensor2
  results :: results
  blind :: bool

text \<open>
  \<^verbatim>\<open>__init__\<close>, for a model \<open>m\<close> (what \<^verbatim>\<open>get_model\<close> makes of \<^verbatim>\<open>covariance\<close>). The
  configuration, the cache, the results and the flag \<open>blind\<close> are no attributes yet;
  \<^verbatim>\<open>calculate\<close> and \<^verbatim>\<open>update_inducing\<close> assign each of them before it is read, so
  they start here as empty values.
\<close>

definition init :: "model \<Rightarrow> real \<Rightarrow> real \<Rightarrow> real \<Rightarrow> real option \<Rightarrow> calc" where
  "init m ed fd cd b =
     \<lparr>model = m, ediff = ed, fdiff = fd, covdiff = cd, bias = b, bias_pot = None, step = 0,
      normalized = None,
      atoms = \<lparr>natoms = 0, indices = [], loc = [], gathered = [], is_distributed = False,
               xyz = [], lll = [], get_volume = None\<rparr>,
      cov = \<lparr>size1 = 0, entries = []\<rparr>,
      results = \<lparr>energy = 0, forces = [], stress = []\<rparr>,
      blind = False\<rparr>"

text \<open>
  \<^verbatim>\<open>gather\<close>: \<^verbatim>\<open>_x = torch.zeros(natoms); _x[indices] = x; all_reduce(_x)\<close>. The
  assignment needs every index inside \<open>_x\<close> and as many values as indices (a single
  value is broadcast).
\<close>

definition index_put :: "vec \<Rightarrow> nat list \<Rightarrow> vec \<Rightarrow> error + vec" where
  "index_put t idx x =
     (if \<not> list_all (\<lambda>i. i < length t) idx then Inl IndexError
      else if length x = length idx then Inr (fold (\<lambda>(i, v) acc. acc[i := v]) (zip idx x) t)
      else if length x = 1 then Inr (fold (\<lambda>i acc. acc[i := hd x]) idx t)
      else Inl RuntimeError)"

definition gather :: "env \<Rightarrow> calc \<Rightarrow> vec \<Rightarrow> error + vec" where
  "gather env self x =
     (case index_put (replicate (natoms (atoms self)) 0) (indices (atoms self)) x of
        Inl e \<Rightarrow> Inl e
      | Inr x' \<Rightarrow> all_reduce1 env x')"

text \<open>
  \<^verbatim>\<open>get_covloss\<close>. \<^verbatim>\<open>not self.normalized\<close> holds for \<^verbatim>\<open>None\<close> and for \<^verbatim>\<open>False\<close>;
  \<^verbatim>\<open>torch.cat\<close> of the self-covariances raises when the configuration yields no
  local environment.
\<close>

definition get_covloss :: "env \<Rightarrow> calc \<Rightarrow> error + (vec \<times> calc)" where
  "get_covloss env self =
     (case matmul_T (choli (model self)) (cov self) of
        Inl e \<Rightarrow> Inl e
      | Inr b \<Rightarrow>
          (case
             (if normalized self \<noteq> Some True then
                (if loc (atoms self) = [] then Inl RuntimeError
                 else
                   let alpha = map (\<lambda>x. kern_fn env x x) (loc (atoms self)) in
                   (case tdiv (sqsum_dim0 b) alpha of
                      Inl e \<Rightarrow> Inl e
                    | Inr c \<Rightarrow>
                        (if normalized self = None then
                           (case (if is_distributed (atoms self) then gather env self alpha
                                  else Inr alpha) of
                              Inl e \<Rightarrow> Inl e
                            | Inr a \<Rightarrow> Inr (c, self\<lparr>normalized := Some (allclose_one a)\<rparr>))
                         else Inr (c, self))))
              else Inr (sqsum_dim0 b, self)) of
             Inl e \<Rightarrow> Inl e
           | Inr (c, self') \<Rightarrow>
               let beta = map (\<lambda>x. sqrt (max (1 - x) 0)) c in
               (if is_distributed (atoms self') then
                  (case gather env self' beta of
                     Inl e \<Rightarrow> Inl e
                   | Inr beta' \<Rightarrow> Inr (beta', self'))
                else Inr (beta, self'))))"

subsection \<open>Energy, forces and stress\<close>

text \<open>
  A scalar of torch carries its value and the graph it was computed from; what
  \<^verbatim>\<open>torch.autograd.grad\<close> returns for it (with \<^verbatim>\<open>allow_unused=True\<close>: \<^verbatim>\<open>None\<close> where
  the scalar does not depend on the variable) is carried beside the value.
\<close>

record scalar =
  sval :: real
  d_xyz :: "real list list option"
  d_lll :: "real list list option"

definition zeros_like :: "real list list \<Rightarrow> real list list" where
  "zeros_like t = map (map (\<lambda>_. 0)) t"

text \<open>
  \<^verbatim>\<open>(f[:, None]*x[..., None]).sum(dim=0)\<close> for two tensors of shape \<open>(n, 3)\<close>: entry
  \<open>(a, b)\<close> is the sum over the rows \<open>i\<close> of \<open>x[i][a] * f[i][b]\<close>.
\<close>

definition outer_sum :: "real list list \<Rightarrow> real list list \<Rightarrow> real list list" where
  "outer_sum f x =
     map (\<lambda>a. map (\<lambda>b. sum_list (map2 (\<lambda>xi fi. (xi ! a) * (fi ! b)) x f)) [0..<3]) [0..<3]"

text \<open>\<^verbatim>\<open>stress.flat[[0, 4, 8, 5, 2, 1]]\<close>.\<close>

definition flat_voigt :: "real list list \<Rightarrow> vec" where
  "flat_voigt s = map (\<lambda>i. concat s ! i) [0, 4, 8, 5, 2, 1]"

text \<open>
  \<^verbatim>\<open>grads\<close>. The \<^verbatim>\<open>try\<close> around \<^verbatim>\<open>get_volume()\<close> turns its ValueError into the volume
  \<open>-2\<close>. The division is numpy's, entry by entry; a volume \<open>0\<close> gives infinities
  there and \<open>0\<close> here.
\<close>

definition grads :: "env \<Rightarrow> calc \<Rightarrow> scalar \<Rightarrow> bool \<Rightarrow> error + (real list list \<times> real list list)" where
  "grads env self energy0 retain_graph =
     (let rgrad = d_xyz energy0;
          forces0 = (case rgrad of None \<Rightarrow> zeros_like (xyz (atoms self))
                     | Some g \<Rightarrow> map (map uminus) g)
      in
      case (if is_distributed (atoms self) then all_reduce2 env forces0 else Inr forces0) of
        Inl e \<Rightarrow> Inl e
      | Inr forces1 \<Rightarrow>
          (let stress1 = map (map uminus) (outer_sum forces1 (xyz (atoms self)));
               cellgrad0 = (case d_lll energy0 of None \<Rightarrow> zeros_like (lll (atoms self))
                            | Some g \<Rightarrow> g)
           in
           case (if is_distributed (atoms self) then all_reduce2 env cellgrad0
                 else Inr cellgrad0) of
             Inl e \<Rightarrow> Inl e
           | Inr cellgrad \<Rightarrow>
               (let stress2 = outer_sum cellgrad (lll (atoms self));
                    volume = (case get_volume (atoms self) of Some v \<Rightarrow> v | None \<Rightarrow> - 2)
                in Inr (forces1,
                        map (map (\<lambda>x. x / volume)) (map2 (map2 (+)) stress1 stress2)))))"

text \<open>The scalar \<^verbatim>\<open>(self.cov@w).sum()\<close> with its gradients.\<close>

definition weighted_sum :: "env \<Rightarrow> calc \<Rightarrow> vec \<Rightarrow> error + scalar" where
  "weighted_sum env self w =
     (case matvec (cov self) w of
        Inl e \<Rightarrow> Inl e
      | Inr v \<Rightarrow>
          Inr \<lparr>sval = sum_list v,
               d_xyz = fst (autograd env (atoms self) (cov self) w),
               d_lll = snd (autograd env (atoms self) (cov self) w)\<rparr>)"

definition calculate_results :: "env \<Rightarrow> calc \<Rightarrow> bool \<Rightarrow> error + (real \<times> calc)" where
  "calculate_results env self retain_graph =
     (case weighted_sum env self (mu (model self)) of
        Inl e \<Rightarrow> Inl e
      | Inr energy0 \<Rightarrow>
          (case (if is_distributed (atoms self) then
                   (case all_reduce0 env (sval energy0) of
                      Inl e \<Rightarrow> Inl e
                    | Inr v \<Rightarrow> Inr (energy0\<lparr>sval := v\<rparr>))
                 else Inr energy0) of
             Inl e \<Rightarrow> Inl e
           | Inr energy1 \<Rightarrow>
               (case grads env self energy1 retain_graph of
                  Inl e \<Rightarrow> Inl e
                | Inr (f, s) \<Rightarrow>
                    Inr (sval energy1,
                         self\<lparr>results := \<lparr>energy = sval energy1, forces = f,
                                            stress = flat_voigt s\<rparr>\<rparr>))))"

subsection \<open>The bias potential\<close>

text \<open>
  \<^verbatim>\<open>pad_1d\<close>: \<^verbatim>\<open>torch.zeros\<close> of a negative size raises.
\<close>

definition pad_1d :: "vec \<Rightarrow> vec \<Rightarrow> error + vec" where
  "pad_1d a b =
     (if length b < length a then Inl RuntimeError
      else Inr (a @ replicate (length b - length a) 0))"

text \<open>
  \<^verbatim>\<open>add_bias\<close>. Its first lines compute \<open>mu\<close>, the response of every inducing point
  to the configuration, summed over the atoms (and over the workers when the
  configuration is split). The sum \<^verbatim>\<open>pad_1d(self.bias_pot, mu) + self.bias*mu\<close> is of
  two tensors of the size of \<open>mu\<close>. The all-reduce of \<^verbatim>\<open>bias_energy\<close> stands outside
  every \<^verbatim>\<open>if\<close>. The results that the bias is added to were stored by
  \<^verbatim>\<open>calculate_results\<close> for the same configuration, so the shapes agree.
\<close>

definition mean_response :: "env \<Rightarrow> calc \<Rightarrow> error + vec" where
  "mean_response env self =
     (case matmul_T (Mi (model self)) (cov self) of
        Inl e \<Rightarrow> Inl e
      | Inr t \<Rightarrow>
          (if is_distributed (atoms self) then all_reduce1 env (sum_dim1 t)
           else Inr (sum_dim1 t)))"

definition add_bias :: "env \<Rightarrow> calc \<Rightarrow> error + (real \<times> calc)" where
  "add_bias env self =
     (let pot0 = (case bias_pot self of None \<Rightarrow> replicate (size1 (cov self)) 0
                  | Some p \<Rightarrow> p)
      in
      case mean_response env self of
        Inl e \<Rightarrow> Inl e
      | Inr mu' \<Rightarrow>
          (case bias self of
             None \<Rightarrow> Inl TypeError
           | Some b \<Rightarrow>
               (case pad_1d pot0 mu' of
                  Inl e \<Rightarrow> Inl e
                | Inr padded \<Rightarrow>
                    (let pot = map2 (+) padded (map (\<lambda>x. b * x) mu');
                         self1 = self\<lparr>bias_pot := Some pot\<rparr>
                     in
                     case weighted_sum env self1 pot of
                       Inl e \<Rightarrow> Inl e
                     | Inr bias_energy0 \<Rightarrow>
                         (case all_reduce0 env (sval bias_energy0) of
                            Inl e \<Rightarrow> Inl e
                          | Inr v \<Rightarrow>
                              (case grads env self1 (bias_energy0\<lparr>sval := v\<rparr>) False of
                                 Inl e \<Rightarrow> Inl e
                               | Inr (bf, bs) \<Rightarrow>
                                   Inr (v,
                                        self1\<lparr>results :=
                                          \<lparr>energy = energy (results self1) + v,
                                           forces = map2 (map2 (+)) (forces (results self1)) bf,
                                           stress = map2 (+) (stress (results self1))
                                                      (flat_voigt bs)\<rparr>\<rparr>)))))))"

subsection \<open>The operations of the model\<close>

text \<open>
  Modelled from the spec: \<^verbatim>\<open>PosteriorPotential\<close> (theforce/regression/gppotential.py)
  is not among the sources. The spec treats it as an abstract object that owns the
  inducing set, the training set and the matrices derived from them, and exposes:
  set both sets, add an inducing point, add an inducing point if the predicted
  energy of the candidate differs by more than a threshold, add a configuration
  unless the filters find it redundant, recompute the mean/weight vectors.
\<close>

definition remake :: "env \<Rightarrow> model \<Rightarrow> model" where
  "remake env m =
     (case posterior env (X m) (data m) of
        (u, i, c) \<Rightarrow> m\<lparr>mu := u, Mi := i, choli := c\<rparr>)"

definition set_data :: "env \<Rightarrow> model \<Rightarrow> snapshot list \<Rightarrow> loc list \<Rightarrow> model" where
  "set_data env m d inducing = remake env (m\<lparr>X := inducing, data := d\<rparr>)"

definition add_inducing :: "env \<Rightarrow> model \<Rightarrow> loc \<Rightarrow> model" where
  "add_inducing env m l = remake env (m\<lparr>X := X m @ [l]\<rparr>)"

definition add_1inducing :: "env \<Rightarrow> model \<Rightarrow> loc \<Rightarrow> real \<Rightarrow> bool \<Rightarrow> bool \<times> real \<times> model" where
  "add_1inducing env m l thr detach =
     (let delta = delta_e env m l
      in if delta > thr then (True, delta, add_inducing env m l) else (False, delta, m))"

definition add_1atoms :: "env \<Rightarrow> model \<Rightarrow> snapshot \<Rightarrow> real \<Rightarrow> real \<Rightarrow> model" where
  "add_1atoms env m new ed fd =
     (if redundant env m new ed fd then m else remake env (m\<lparr>data := data m @ [new]\<rparr>))"

definition make_munu :: "env \<Rightarrow> model \<Rightarrow> model" where
  "make_munu env m = m\<lparr>mu := fst (posterior env (X m) (data m))\<rparr>"

subsection \<open>Snapshots and the reference calculator\<close>

text \<open>\<^verbatim>\<open>_exact\<close>: energy and forces of the reference calculator.\<close>

definition exact_labels :: "env \<Rightarrow> atoms \<Rightarrow> real \<times> real list list" where
  "exact_labels env copy = exact env copy"

definition snapshot :: "env \<Rightarrow> calc \<Rightarrow> bool \<Rightarrow> snapshot" where
  "snapshot env self fake =
     (let copy = atoms self;
          ef = (if fake then (energy (results self), forces (results self))
                else exact_labels env copy)
      in \<lparr>conf = copy, target_energy = fst ef, target_forces = snd ef\<rparr>)"

text \<open>
  \<^verbatim>\<open>head\<close>, as \<^verbatim>\<open>update_data\<close> calls it (without labels): the last configuration of the
  training set gets the labels of the reference calculator, then the model
  recomputes its vectors.
\<close>

definition head :: "env \<Rightarrow> calc \<Rightarrow> error + calc" where
  "head env self =
     (if data (model self) = [] then Inl IndexError
      else
        let added = last (data (model self));
            ef = exact_labels env (conf added);
            added' = added\<lparr>target_energy := fst ef, target_forces := snd ef\<rparr>
        in Inr (self\<lparr>model := make_munu env
                  ((model self)\<lparr>data := butlast (data (model self)) @ [added']\<rparr>)\<rparr>))"

subsection \<open>Bootstrap\<close>

fun initiate_loop :: "env \<Rightarrow> real \<Rightarrow> loc list \<Rightarrow> nat list \<Rightarrow> nat list \<Rightarrow> model \<Rightarrow> error + model" where
  "initiate_loop env ed locs i [] m = Inr m"
| "initiate_loop env ed locs i (j # js) m =
     (if j \<notin> set i then
        (if j < length locs then
           initiate_loop env ed locs i js (snd (snd (add_1inducing env m (locs ! j) ed True)))
         else Inl IndexError)
      else initiate_loop env ed locs i js m)"

definition initiate_model :: "env \<Rightarrow> calc \<Rightarrow> error + calc" where
  "initiate_model env self =
     (let snap = snapshot env self False;
          i = first_of_each_atom_type (conf snap);
          locs = gathered (conf snap);
          inducing = map (\<lambda>j. locs ! j) i;
          m = set_data env (model self) [snap] inducing
      in
      case initiate_loop env (ediff self) locs i [0..<natoms (conf snap)] m of
        Inl e \<Rightarrow> Inl e
      | Inr m' \<Rightarrow> Inr (self\<lparr>model := m'\<rparr>))"

subsection \<open>The greedy selection of inducing points\<close>

datatype 'a loop = Continue 'a | Break 'a

record round =
  this :: calc
  added_beta :: nat
  added_diff :: nat
  added_indices :: "nat list"

text \<open>
  \<^verbatim>\<open>for k in q.tolist(): if k not in added_indices: break\<close>: the first index of \<open>q\<close>
  that is not yet added; when every index of \<open>q\<close> is added, \<open>k\<close> is left at the last
  one, and it is unbound when \<open>q\<close> is empty.
\<close>

definition pick :: "nat list \<Rightarrow> nat list \<Rightarrow> error + nat" where
  "pick q added =
     (case filter (\<lambda>k. k \<notin> set added) q of
        k # _ \<Rightarrow> Inr k
      | [] \<Rightarrow> (if q = [] then Inl NameError else Inr (last q)))"

text \<open>
  The two ways of adding the candidate \<open>k\<close> with local environment \<open>l\<close>. The first is
  the branch of \<^verbatim>\<open>beta[k] > self.covdiff\<close>: the model adds the inducing point, the
  cache gets the column \<^verbatim>\<open>kern(self.atoms, loc)\<close>. The second is its \<^verbatim>\<open>else\<close>: the
  model adds the point if the energy changes by more than \<^verbatim>\<open>_ediff\<close>, and the loop
  ends when it does not.
\<close>

definition covdiff_add :: "env \<Rightarrow> round \<Rightarrow> calc \<Rightarrow> nat \<Rightarrow> loc \<Rightarrow> error + round loop" where
  "covdiff_add env s self2 k l =
     (case cat_dim1 (cov self2) (kern env (atoms self2) [l]) of
        Inl e \<Rightarrow> Inl e
      | Inr c \<Rightarrow>
          Inr (Continue
            (s\<lparr>this := self2\<lparr>model := add_inducing env (model self2) l, cov := c\<rparr>,
               added_beta := added_beta s + 1,
               added_indices := added_indices s @ [k]\<rparr>)))"

definition ediff_add :: "env \<Rightarrow> round \<Rightarrow> calc \<Rightarrow> nat \<Rightarrow> loc \<Rightarrow> error + round loop" where
  "ediff_add env s self2 k l =
     (let ediff' = (if length (X (model self2)) > 1 then ediff self2 else tiny)
      in
      case add_1inducing env (model self2) l ediff' False of
        (added, delta, m) \<Rightarrow>
          (if added then
             (case cat_dim1 (cov self2) (kern env (atoms self2) [l]) of
                Inl e \<Rightarrow> Inl e
              | Inr c \<Rightarrow>
                  Inr (Continue
                    (s\<lparr>this := self2\<lparr>model := m, cov := c\<rparr>,
                       added_diff := added_diff s + 1,
                       added_indices := added_indices s @ [k]\<rparr>)))
           else Inr (Break (s\<lparr>this := self2\<lparr>model := m\<rparr>\<rparr>))))"

text \<open>
  One pass through the body of \<^verbatim>\<open>while True\<close>. A pass ends in \<^verbatim>\<open>break\<close> or at the end
  of the body, from where the loop starts over. The test of the species has no
  \<^verbatim>\<open>else\<close>: a candidate whose species the model does not know reaches the end of the
  body with nothing added.
\<close>

definition update_inducing_body :: "env \<Rightarrow> round \<Rightarrow> error + round loop" where
  "update_inducing_body env s =
     (if length (added_indices s) = natoms (atoms (this s)) then Inr (Break s)
      else
        case get_covloss env (this s) of
          Inl e \<Rightarrow> Inl e
        | Inr (beta, self1) \<Rightarrow>
            (case pick (argsort_descending beta) (added_indices s) of
               Inl e \<Rightarrow> Inl e
             | Inr k \<Rightarrow>
                 (let self2 = (if isclose_one (beta ! k) then self1\<lparr>blind := True\<rparr> else self1)
                  in
                  case local_env (atoms self2) k of
                    Inl e \<Rightarrow> Inl e
                  | Inr l \<Rightarrow>
                      (if number l \<in> set (species (model self2)) then
                         (if beta ! k > covdiff self2 then covdiff_add env s self2 k l
                          else ediff_add env s self2 k l)
                       else Inr (Continue (s\<lparr>this := self2\<rparr>))))))"

text \<open>
  \<^verbatim>\<open>while True\<close>: the loop has a result only if some pass ends in \<^verbatim>\<open>break\<close> or raises;
  \<open>None\<close> is the loop that runs forever.
\<close>

partial_function (option) while_true :: "env \<Rightarrow> round \<Rightarrow> (error + round) option" where
  "while_true env s =
     (case update_inducing_body env s of
        Inl e \<Rightarrow> Some (Inl e)
      | Inr (Break s') \<Rightarrow> Some (Inr s')
      | Inr (Continue s') \<Rightarrow> while_true env s')"

text \<open>
  The loop cut off after \<open>n\<close> passes: \<open>None\<close> when \<open>n\<close> passes do not end it.
\<close>

fun passes :: "nat \<Rightarrow> env \<Rightarrow> round \<Rightarrow> (error + round) option" where
  "passes 0 env s = None"
| "passes (Suc n) env s =
     (case update_inducing_body env s of
        Inl e \<Rightarrow> Some (Inl e)
      | Inr (Break s') \<Rightarrow> Some (Inr s')
      | Inr (Continue s') \<Rightarrow> passes n env s')"

definition update_inducing :: "env \<Rightarrow> calc \<Rightarrow> (error + (nat \<times> calc)) option" where
  "update_inducing env self0 =
     (case while_true env \<lparr>this = self0\<lparr>blind := False\<rparr>, added_beta = 0, added_diff = 0,
                           added_indices = []\<rparr> of
        None \<Rightarrow> None
      | Some (Inl e) \<Rightarrow> Some (Inl e)
      | Some (Inr s) \<Rightarrow> Some (Inr (added_beta s + added_diff s, this s)))"

subsection \<open>Growth of the training set\<close>

definition update_data :: "env \<Rightarrow> calc \<Rightarrow> bool \<Rightarrow> error + (int \<times> calc)" where
  "update_data env self0 try_fake =
     (let n = ndata (model self0);
          new = snapshot env self0 try_fake;
          self1 = self0\<lparr>model := add_1atoms env (model self0) new (ediff self0) (fdiff self0)\<rparr>;
          added = int (ndata (model self1)) - int n
      in
      if added > 0 then
        (if try_fake then
           (case head env self1 of Inl e \<Rightarrow> Inl e | Inr self2 \<Rightarrow> Inr (added, self2))
         else Inr (added, self1))
      else Inr (added, self1))"

definition update :: "env \<Rightarrow> calc \<Rightarrow> (error + ((nat \<times> int) \<times> calc)) option" where
  "update env self0 =
     (case update_inducing env self0 of
        None \<Rightarrow> None
      | Some (Inl e) \<Rightarrow> Some (Inl e)
      | Some (Inr (m, self1)) \<Rightarrow>
          (if m > 0 then
             (case update_data env self1 (\<not> blind self1) of
                Inl e \<Rightarrow> Some (Inl e)
              | Inr (n, self2) \<Rightarrow> Some (Inr ((m, n), self2)))
           else Some (Inr ((m, 0), self1))))"

subsection \<open>One step of the calculator\<close>

text \<open>The block \<^verbatim>\<open># build a model\<close> of \<^verbatim>\<open>calculate\<close>: the new state and \<^verbatim>\<open>skip\<close>.\<close>

definition build_a_model :: "env \<Rightarrow> calc \<Rightarrow> error + (bool \<times> calc)" where
  "build_a_model env self0 =
     (if step self0 = 0 then
        (if ndata (model self0) = 0 then
           (case initiate_model env self0 of
              Inl e \<Rightarrow> Inl e
            | Inr self1 \<Rightarrow> Inr (True, self1))
         else Inr (False, self0))
      else Inr (False, self0))"

text \<open>The block \<^verbatim>\<open># kernel\<close>.\<close>

definition kernel_block :: "env \<Rightarrow> calc \<Rightarrow> calc" where
  "kernel_block env self0 = self0\<lparr>cov := kern env (atoms self0) (X (model self0))\<rparr>"

text \<open>The block \<^verbatim>\<open># active learning\<close>.\<close>

definition active_learning :: "env \<Rightarrow> bool \<Rightarrow> calc \<Rightarrow> (error + calc) option" where
  "active_learning env skip self0 =
     (if \<not> skip then
        (case update env self0 of
           None \<Rightarrow> None
         | Some (Inl e) \<Rightarrow> Some (Inl e)
         | Some (Inr ((m, n), self1)) \<Rightarrow>
             (if n > 0 \<or> m > 0 then
                (case calculate_results env self1 (bias self1 \<noteq> None) of
                   Inl e \<Rightarrow> Some (Inl e)
                 | Inr (en, self2) \<Rightarrow> Some (Inr self2))
              else Some (Inr self1)))
      else Some (Inr self0))"

text \<open>The blocks \<^verbatim>\<open># bias potential\<close> and \<^verbatim>\<open># step\<close>.\<close>

definition bias_and_step :: "env \<Rightarrow> calc \<Rightarrow> error + calc" where
  "bias_and_step env self0 =
     (case (if bias self0 \<noteq> None then
              (case add_bias env self0 of Inl e \<Rightarrow> Inl e | Inr (be, self1) \<Rightarrow> Inr self1)
            else Inr self0) of
        Inl e \<Rightarrow> Inl e
      | Inr self1 \<Rightarrow> Inr (self1\<lparr>step := step self1 + 1\<rparr>))"

text \<open>
  \<^verbatim>\<open>calculate\<close> on a configuration \<open>a\<close> (a \<^verbatim>\<open>TorchAtoms\<close>, already updated).
\<close>

definition calculate :: "env \<Rightarrow> calc \<Rightarrow> atoms \<Rightarrow> (error + calc) option" where
  "calculate env self0 a =
     (case build_a_model env (self0\<lparr>atoms := a\<rparr>) of
        Inl e \<Rightarrow> Some (Inl e)
      | Inr (skip, self1) \<Rightarrow>
          (case calculate_results env (kernel_block env self1) True of
             Inl e \<Rightarrow> Some (Inl e)
           | Inr (en, self2) \<Rightarrow>
               (case active_learning env skip self2 of
                  None \<Rightarrow> None
                | Some (Inl e) \<Rightarrow> Some (Inl e)
                | Some (Inr self3) \<Rightarrow> Some (bias_and_step env self3))))"

subsection \<open>Consecutive visits\<close>

text \<open>
  The bias energy that \<^verbatim>\<open>add_bias\<close> returns on its call number \<open>n + 1\<close> when it is
  called again and again on a calculator whose cache and model stay as they are.
\<close>

fun revisit :: "env \<Rightarrow> calc \<Rightarrow> nat \<Rightarrow> error + (real \<times> calc)" where
  "revisit env self 0 = add_bias env self"
| "revisit env self (Suc n) =
     (case add_bias env self of Inl e \<Rightarrow> Inl e | Inr (be, self1) \<Rightarrow> revisit env self1 n)"

subsection \<open>Example configurations\<close>

text \<open>
  Seven atoms of two species (three of carbon, four of oxygen), not periodic, on one
  worker; a kernel that is \<open>1\<close> between atoms of one species and \<open>0\<close> otherwise; a
  model that knows carbon only and holds one inducing point.
\<close>

definition loc_of :: "nat \<Rightarrow> nat \<Rightarrow> loc" where
  "loc_of z i = \<lparr>number = z, focal = i, displacements = []\<rparr>"

definition locs7 :: "loc list" where
  "locs7 = [loc_of 6 0, loc_of 6 1, loc_of 6 2, loc_of 8 3, loc_of 8 4, loc_of 8 5, loc_of 8 6]"

definition atoms7 :: atoms where
  "atoms7 = \<lparr>natoms = 7, indices = [0, 1, 2, 3, 4, 5, 6], loc = locs7, gathered = locs7,
     is_distributed = False,
     xyz = [[0, 0, 0], [1, 0, 0], [0, 1, 0], [0, 0, 1], [1, 1, 0], [1, 0, 1], [0, 1, 1]],
     lll = [[0, 0, 0], [0, 0, 0], [0, 0, 0]],
     get_volume = None\<rparr>"

definition env7 :: env where
  "env7 = \<lparr>kern_fn = (\<lambda>l l'. if number l = number l' then 1 else 0),
     exact = (\<lambda>a. (0, zeros_like (xyz a))),
     autograd = (\<lambda>a c w. (None, None)),
     initialized = False,
     peers0 = (\<lambda>t. 0), peers1 = map (\<lambda>_. 0), peers2 = zeros_like,
     posterior = (\<lambda>xs ds. (map (\<lambda>_. 0) xs, \<lparr>size1 = length xs, entries = []\<rparr>,
                              \<lparr>size1 = length xs, entries = []\<rparr>)),
     delta_e = (\<lambda>m l. 1),
     redundant = (\<lambda>m s e f. False)\<rparr>"

definition calc7 :: calc where
  "calc7 = \<lparr>model = \<lparr>X = [loc_of 6 0], data = [], mu = [0],
                      Mi = \<lparr>size1 = 1, entries = [[1]]\<rparr>,
                      choli = \<lparr>size1 = 1, entries = [[1]]\<rparr>, species = [6]\<rparr>,
     ediff = 1 / 10, fdiff = 1 / 10, covdiff = 1, bias = None, bias_pot = None, step = 1,
     normalized = None, atoms = atoms7,
     cov = \<lparr>size1 = 1, entries = [[1], [1], [1], [0], [0], [0], [0]]\<rparr>,
     results = \<lparr>energy = 0,
                forces = [[0, 0, 0], [0, 0, 0], [0, 0, 0], [0, 0, 0], [0, 0, 0], [0, 0, 0],
                          [0, 0, 0]],
                stress = [0, 0, 0, 0, 0, 0]\<rparr>,
     blind = False\<rparr>"

definition round7 :: "calc \<Rightarrow> round" where
  "round7 c = \<lparr>this = c, added_beta = 0, added_diff = 0, added_indices = []\<rparr>"

text \<open>
  A new calculator on a model that knows both species and holds nothing yet, and the
  model after the seven atoms have bootstrapped it with the kernel of \<open>env7\<close>.
\<close>

definition model0 :: model where
  "model0 = \<lparr>X = [], data = [], mu = [], Mi = \<lparr>size1 = 0, entries = []\<rparr>,
              choli = \<lparr>size1 = 0, entries = []\<rparr>, species = [6, 8]\<rparr>"

definition calc0 :: calc where
  "calc0 = init model0 (1 / 10) (1 / 10) 1 None"

definition snap7 :: snapshot where
  "snap7 = \<lparr>conf = atoms7, target_energy = 0,
             target_forces = [[0, 0, 0], [0, 0, 0], [0, 0, 0], [0, 0, 0], [0, 0, 0], [0, 0, 0],
                              [0, 0, 0]]\<rparr>"

definition model7 :: model where
  "model7 = \<lparr>X = [loc_of 6 0, loc_of 8 3, loc_of 6 1, loc_of 6 2, loc_of 8 4, loc_of 8 5,
                   loc_of 8 6],
              data = [snap7], mu = [0, 0, 0, 0, 0, 0, 0],
              Mi = \<lparr>size1 = 7, entries = []\<rparr>,
              choli = \<lparr>size1 = 7, entries = []\<rparr>, species = [6, 8]\<rparr>"

text \<open>The cache of the seven atoms against the seven inducing points of \<open>model7\<close>.\<close>

definition cov7 :: tensor2 where
  "cov7 = \<lparr>size1 = 7, entries =
     [[1, 0, 1, 1, 0, 0, 0], [1, 0, 1, 1, 0, 0, 0], [1, 0, 1, 1, 0, 0, 0],
      [0, 1, 0, 0, 1, 1, 1], [0, 1, 0, 0, 1, 1, 1], [0, 1, 0, 0, 1, 1, 1],
      [0, 1, 0, 0, 1, 1, 1]]\<rparr>"




text \<open>
  Two atoms of carbon on one worker, periodic, with an initialized backend. The model
  holds one inducing point; it takes a second one and refuses a third, and it finds
  no snapshot redundant. The reference calculator returns the energy \<open>7\<close>.
\<close>

definition atoms2 :: atoms where
  "atoms2 = \<lparr>natoms = 2, indices = [0, 1], loc = [loc_of 6 0, loc_of 6 1],
     gathered = [loc_of 6 0, loc_of 6 1],
     is_distributed = False, xyz = [[0, 0, 0], [1, 0, 0]],
     lll = [[2, 0, 0], [0, 2, 0], [0, 0, 2]],
     get_volume = Some 8\<rparr>"

definition env2 :: env where
  "env2 = \<lparr>kern_fn = (\<lambda>l l'. if number l = number l' then 1 else 0),
     exact = (\<lambda>a. (7, zeros_like (xyz a))),
     autograd = (\<lambda>a c w. (None, None)),
     initialized = True,
     peers0 = (\<lambda>t. 0), peers1 = map (\<lambda>_. 0), peers2 = zeros_like,
     posterior = (\<lambda>xs ds. (map (\<lambda>_. 1) xs,
                              \<lparr>size1 = length xs, entries = map (\<lambda>_. map (\<lambda>_. 1) xs) xs\<rparr>,
                              \<lparr>size1 = length xs, entries = [map (\<lambda>_. 1) xs]\<rparr>)),
     delta_e = (\<lambda>m l. if length (X m) < 2 then 1 else 0),
     redundant = (\<lambda>m s e f. False)\<rparr>"

definition model2 :: model where
  "model2 = \<lparr>X = [loc_of 6 9], data = [], mu = [1],
              Mi = \<lparr>size1 = 1, entries = [[1]]\<rparr>,
              choli = \<lparr>size1 = 1, entries = [[1]]\<rparr>, species = [6]\<rparr>"

definition calc2 :: calc where
  "calc2 = (init model2 (1 / 10) (1 / 10) 1 None)\<lparr>step := 1\<rparr>"

text \<open>The states that one step of the calculator passes through on this example.\<close>

definition c2a :: calc where
  "c2a = calc2\<lparr>atoms := atoms2, cov := \<lparr>size1 = 1, entries = [[1], [1]]\<rparr>\<rparr>"

definition res2 :: "real \<Rightarrow> results" where
  "res2 e = \<lparr>energy = e, forces = [[0, 0, 0], [0, 0, 0]], stress = [0, 0, 0, 0, 0, 0]\<rparr>"

definition model2b :: model where
  "model2b = \<lparr>X = [loc_of 6 9, loc_of 6 0], data = [], mu = [1, 1],
              Mi = \<lparr>size1 = 2, entries = [[1, 1], [1, 1]]\<rparr>,
              choli = \<lparr>size1 = 2, entries = [[1, 1]]\<rparr>, species = [6]\<rparr>"

definition c2b :: calc where
  "c2b = c2a\<lparr>results := res2 2, normalized := Some True, model := model2b,
              cov := \<lparr>size1 = 2, entries = [[1, 1], [1, 1]]\<rparr>\<rparr>"

definition r2b :: round where
  "r2b = \<lparr>this = c2b, added_beta = 0, added_diff = 1, added_indices = [0]\<rparr>"

definition snap2 :: "real \<Rightarrow> snapshot" where
  "snap2 e = \<lparr>conf = atoms2, target_energy = e, target_forces = [[0, 0, 0], [0, 0, 0]]\<rparr>"

definition c2c :: calc where
  "c2c = c2b\<lparr>model := model2b\<lparr>data := [snap2 7]\<rparr>\<rparr>"

definition c2e :: calc where
  "c2e = c2c\<lparr>results := res2 4, step := 2\<rparr>"

text \<open>
  One atom whose covariance with the single inducing point of the model is \<open>k\<close>, on
  a calculator with the bias scale \<open>1\<close> and the accumulator \<open>p\<close>.
\<close>

definition atoms1 :: atoms where
  "atoms1 = \<lparr>natoms = 1, indices = [0], loc = [loc_of 6 0], gathered = [loc_of 6 0],
     is_distributed = False, xyz = [[0, 0, 0]],
     lll = [[2, 0, 0], [0, 2, 0], [0, 0, 2]],
     get_volume = Some 8\<rparr>"

definition calc1 :: "real \<Rightarrow> vec option \<Rightarrow> calc" where
  "calc1 k p = \<lparr>model = model2, ediff = 1 / 10, fdiff = 1 / 10, covdiff = 1, bias = Some 1,
     bias_pot = p, step = 1, normalized = Some True, atoms = atoms1,
     cov = \<lparr>size1 = 1, entries = [[k]]\<rparr>,
     results = \<lparr>energy = 0, forces = [[0, 0, 0]], stress = [0, 0, 0, 0, 0, 0]\<rparr>,
     blind = False\<rparr>"

text \<open>
  The calculators that have seen the two atoms and taken the second inducing point:
  on them a further step with the same two atoms adds nothing.
\<close>

definition steady2 :: "calc \<Rightarrow> bool" where
  "steady2 c = (atoms c = atoms2 \<and> normalized c = Some True \<and> \<not> blind c \<and>
     cov c = \<lparr>size1 = 2, entries = [[1, 1], [1, 1]]\<rparr> \<and>
     model c = model2b\<lparr>data := [snap2 7]\<rparr> \<and> ediff c = 1 / 10 \<and> covdiff c = 1 \<and>
     step c \<noteq> 0)"

section \<open>Properties\<close>

subsection \<open>The covariance loss\<close>

lemma sqsum_dim0_nonneg: "x \<in> set (sqsum_dim0 b) \<Longrightarrow> 0 \<le> x"
  by (auto simp: sqsum_dim0_def intro!: sum_list_nonneg)

lemma tdiv_nonneg:
  assumes "tdiv c a = Inr d" and "\<forall>x\<in>set c. 0 \<le> x" and "\<forall>y\<in>set a. 0 < y" and "x \<in> set d"
  shows "0 \<le> x"
proof -
  consider (eq) "length c = length a" "d = map2 (/) c a"
    | (ba) "length a = 1" "d = map (\<lambda>x. x / hd a) c"
    | (bc) "length c = 1" "d = map (\<lambda>y. hd c / y) a"
    using assms(1) by (auto simp: tdiv_def split: if_splits)
  then show ?thesis
  proof cases
    case eq
    with assms(4) obtain p q where "(p, q) \<in> set (zip c a)" "x = p / q" by auto
    then have "p \<in> set c" "q \<in> set a" "x = p / q"
      by (auto dest: set_zip_leftD set_zip_rightD)
    with assms(2,3) have "0 \<le> p" "0 < q" by auto
    then show ?thesis using \<open>x = p / q\<close> by simp
  next
    case ba
    then have "hd a \<in> set a" by (cases a) auto
    with ba assms show ?thesis by auto
  next
    case bc
    then have "hd c \<in> set c" by (cases c) auto
    with bc assms show ?thesis by auto
  qed
qed


lemma fold_update_set:
  "x \<in> set (fold (\<lambda>(i, v) acc. acc[i := v]) ps t) \<Longrightarrow> x \<in> set t \<or> x \<in> snd ` set ps"
proof (induction ps arbitrary: t)
  case Nil then show ?case by simp
next
  case (Cons p ps)
  obtain i v where p: "p = (i, v)" by (cases p)
  from Cons.prems have "x \<in> set (fold (\<lambda>(i, v) acc. acc[i := v]) ps (t[i := v]))" by (simp add: p)
  from Cons.IH[OF this] show ?case
    using set_update_subset_insert[of t i v] by (auto simp: p)
qed

lemma fold_update_length: "length (fold (\<lambda>(i, v) acc. acc[i := v]) ps t) = length t"
  by (induction ps arbitrary: t) auto

lemma fold_update_other:
  "j \<notin> fst ` set ps \<Longrightarrow> fold (\<lambda>(i, v) acc. acc[i := v]) ps t ! j = t ! j"
  by (induction ps arbitrary: t) auto

lemma fold_fill_set:
  "x \<in> set (fold (\<lambda>i acc. acc[i := v]) idx t) \<Longrightarrow> x \<in> set t \<or> x = v"
proof (induction idx arbitrary: t)
  case Nil then show ?case by simp
next
  case (Cons i idx)
  from Cons.prems have "x \<in> set (fold (\<lambda>i acc. acc[i := v]) idx (t[i := v]))" by simp
  from Cons.IH[OF this] show ?case using set_update_subset_insert[of t i v] by auto
qed

lemma fold_fill_length: "length (fold (\<lambda>i acc. acc[i := v]) idx t) = length t"
  by (induction idx arbitrary: t) auto

lemma fold_fill_other:
  "j \<notin> set idx \<Longrightarrow> fold (\<lambda>i acc. acc[i := v]) idx t ! j = t ! j"
  by (induction idx arbitrary: t) auto

lemma index_put_zero:
  assumes "index_put (replicate n 0) idx x = Inr t"
  shows "length t = n"
    and "y \<in> set t \<Longrightarrow> y = 0 \<or> y \<in> set x"
    and "j \<notin> set idx \<Longrightarrow> j < n \<Longrightarrow> t ! j = 0"
proof -
  consider (a) "length x = length idx" "t = fold (\<lambda>(i, v) acc. acc[i := v]) (zip idx x) (replicate n 0)"
    | (b) "length x = 1" "t = fold (\<lambda>i acc. acc[i := hd x]) idx (replicate n 0)"
    using assms by (auto simp: index_put_def split: if_splits)
  note c = this
  from c show "length t = n" by cases (simp_all add: fold_update_length fold_fill_length)
  show "y = 0 \<or> y \<in> set x" if "y \<in> set t"
    using c
  proof cases
    case a
    with that fold_update_set[of y "zip idx x" "replicate n 0"]
    show ?thesis by (auto dest: set_zip_rightD)
  next
    case b
    then have "hd x \<in> set x" by (cases x) auto
    with b that fold_fill_set[of y "hd x" idx "replicate n 0"] show ?thesis by auto
  qed
  show "t ! j = 0" if "j \<notin> set idx" "j < n"
    using c
  proof cases
    case a
    have "j \<notin> fst ` set (zip idx x)" using that(1) by (auto dest: set_zip_leftD)
    from fold_update_other[OF this] a that show ?thesis by simp
  next
    case b
    with fold_fill_other[OF that(1), of "hd x" "replicate n 0"] that show ?thesis by simp
  qed
qed


lemma get_covloss_cases:
  assumes "get_covloss env self = Inr (beta, self')"
  obtains c where "\<forall>x\<in>set c. 0 \<le> x \<or> \<not> (normalized self = Some True \<or> (\<forall>l\<in>set (loc (atoms self)). 0 < kern_fn env l l))"
    and "atoms self' = atoms self"
    and "if is_distributed (atoms self) then gather env self' (map (\<lambda>x. sqrt (max (1 - x) 0)) c) = Inr beta
         else beta = map (\<lambda>x. sqrt (max (1 - x) 0)) c"
proof -
  from assms obtain b where b: "matmul_T (choli (model self)) (cov self) = Inr b"
    by (auto simp: get_covloss_def split: sum.splits)
  show ?thesis
  proof (cases "normalized self = Some True")
    case True
    with assms b have "atoms self' = atoms self"
      and "if is_distributed (atoms self) then gather env self' (map (\<lambda>x. sqrt (max (1 - x) 0)) (sqsum_dim0 b)) = Inr beta
         else beta = map (\<lambda>x. sqrt (max (1 - x) 0)) (sqsum_dim0 b)"
      by (auto simp: get_covloss_def Let_def split: sum.splits if_splits)
    moreover have "\<forall>x\<in>set (sqsum_dim0 b). 0 \<le> x" using sqsum_dim0_nonneg by blast
    ultimately show ?thesis using that[of "sqsum_dim0 b"] by blast
  next
    case False
    with assms b obtain c where c: "tdiv (sqsum_dim0 b) (map (\<lambda>x. kern_fn env x x) (loc (atoms self))) = Inr c"
      and at: "atoms self' = atoms self"
      and r: "if is_distributed (atoms self) then gather env self' (map (\<lambda>x. sqrt (max (1 - x) 0)) c) = Inr beta
         else beta = map (\<lambda>x. sqrt (max (1 - x) 0)) c"
      by (auto simp: get_covloss_def Let_def split: sum.splits if_splits)
    have "0 \<le> x" if "x \<in> set c" "\<forall>l\<in>set (loc (atoms self)). 0 < kern_fn env l l" for x
      using tdiv_nonneg[OF c _ _ that(1)] sqsum_dim0_nonneg that(2) by auto
    with False at r show ?thesis using that[of c] by blast
  qed
qed




subsection \<open>The greedy loop\<close>

text \<open>A pass that ends where it began, without \<^verbatim>\<open>break\<close>, is repeated forever.\<close>

lemma while_true_stuck:
  assumes b: "update_inducing_body env s = Inr (Continue s)"
  shows "while_true env s = None"
proof -
  have "\<not> (e' = env \<and> x = s)" if "while_true e' x = Some y" for e' x y
  proof (rule while_true.raw_induct[where P="\<lambda>e' x y. \<not> (e' = env \<and> x = s)", OF _ that])
    fix f :: "env \<Rightarrow> round \<Rightarrow> (error + round) option" and e' x y
    assume ih: "\<And>e0 s0 y0. f e0 s0 = Some y0 \<Longrightarrow> \<not> (e0 = env \<and> s0 = s)"
    assume st: "(case update_inducing_body e' x of Inl e \<Rightarrow> Some (Inl e)
        | Inr (Continue s') \<Rightarrow> f e' s'
        | Inr (Break s') \<Rightarrow> Some (Inr s')) = Some y"
    show "\<not> (e' = env \<and> x = s)"
    proof
      assume "e' = env \<and> x = s"
      with st b have "f env s = Some y" by simp
      from ih[OF this] show False by simp
    qed
  qed
  then show ?thesis by (cases "while_true env s") auto
qed

lemma kern7:
  "kern env7 atoms7 [loc_of 6 0] = \<lparr>size1 = 1, entries = [[1], [1], [1], [0], [0], [0], [0]]\<rparr>"
  by (simp add: kern_def env7_def atoms7_def locs7_def loc_of_def)

lemma get_covloss7:
  "normalized c = None \<or> normalized c = Some True \<Longrightarrow> atoms c = atoms7 \<Longrightarrow>
   choli (model c) = \<lparr>size1 = 1, entries = [[1]]\<rparr> \<Longrightarrow>
   cov c = \<lparr>size1 = 1, entries = [[1], [1], [1], [0], [0], [0], [0]]\<rparr> \<Longrightarrow>
   get_covloss env7 c = Inr ([0, 0, 0, 1, 1, 1, 1], c\<lparr>normalized := Some True\<rparr>)"
  apply (erule disjE)
   apply (simp_all add: get_covloss_def)
   apply (simp_all add: env7_def atoms7_def locs7_def loc_of_def matmul_T_def size0_def dot_def
      sqsum_dim0_def tdiv_def allclose_one_def isclose_one_def kern_def Let_def)
  done

lemma update_inducing_body7:
  assumes "normalized c = None \<or> normalized c = Some True" "atoms c = atoms7"
    "choli (model c) = \<lparr>size1 = 1, entries = [[1]]\<rparr>" "species (model c) = [6]"
    "cov c = \<lparr>size1 = 1, entries = [[1], [1], [1], [0], [0], [0], [0]]\<rparr>"
  shows "update_inducing_body env7 (round7 c) =
           Inr (Continue (round7 (c\<lparr>normalized := Some True, blind := True\<rparr>)))"
  using assms(2,4)
  by (simp add: update_inducing_body_def round7_def get_covloss7[OF assms(1,2,3,5)]
      argsort_descending_def pick_def isclose_one_def local_env_def atoms7_def locs7_def
      loc_of_def)

text \<open>
  C1. The loop does not end on every finite configuration. The model of \<open>calc7\<close>
  knows carbon only; of the seven atoms the four of oxygen have the highest score, so
  the candidate is atom 3. The test of its species fails, nothing is added and
  nothing ends the pass: the next pass finds the same state and the same candidate.
\<close>

theorem update_inducing_unknown_species_runs_forever:
  "update_inducing env7 calc7 = None"
proof -
  let ?c1 = "calc7\<lparr>blind := False\<rparr>\<lparr>normalized := Some True, blind := True\<rparr>"
  have 1: "update_inducing_body env7 (round7 (calc7\<lparr>blind := False\<rparr>)) =
             Inr (Continue (round7 ?c1))"
    by (rule update_inducing_body7) (simp_all add: calc7_def)
  have "update_inducing_body env7 (round7 ?c1) =
          Inr (Continue (round7 (?c1\<lparr>normalized := Some True, blind := True\<rparr>)))"
    by (rule update_inducing_body7) (simp_all add: calc7_def)
  then have 2: "update_inducing_body env7 (round7 ?c1) = Inr (Continue (round7 ?c1))"
    by simp
  have "while_true env7 (round7 (calc7\<lparr>blind := False\<rparr>)) = while_true env7 (round7 ?c1)"
    by (subst while_true.simps) (simp add: 1)
  also have "\<dots> = None" by (rule while_true_stuck[OF 2])
  finally show ?thesis by (simp add: update_inducing_def round7_def)
qed

subsection \<open>Invariants of the loop and frames of the methods\<close>

lemma while_true_rule:
  assumes run: "while_true env s = Some r"
    and init: "I s"
    and step: "\<And>s s'. I s \<Longrightarrow> update_inducing_body env s = Inr (Continue s') \<Longrightarrow> I s'"
    and brk: "\<And>s s'. I s \<Longrightarrow> update_inducing_body env s = Inr (Break s') \<Longrightarrow> Q (Inr s')"
    and err: "\<And>s e. I s \<Longrightarrow> update_inducing_body env s = Inl e \<Longrightarrow> Q (Inl e)"
  shows "Q r"
proof -
  have "e' = env \<longrightarrow> I x \<longrightarrow> Q y" if "while_true e' x = Some y" for e' x y
  proof (rule while_true.raw_induct[where P="\<lambda>e' x y. e' = env \<longrightarrow> I x \<longrightarrow> Q y", OF _ that])
    fix f :: "env \<Rightarrow> round \<Rightarrow> (error + round) option" and e' x y
    assume ih: "\<And>e0 s0 y0. f e0 s0 = Some y0 \<Longrightarrow> e0 = env \<longrightarrow> I s0 \<longrightarrow> Q y0"
    assume st: "(case update_inducing_body e' x of Inl e \<Rightarrow> Some (Inl e)
        | Inr (Continue s') \<Rightarrow> f e' s'
        | Inr (Break s') \<Rightarrow> Some (Inr s')) = Some y"
    show "e' = env \<longrightarrow> I x \<longrightarrow> Q y"
    proof (intro impI)
      assume e: "e' = env" and i: "I x"
      show "Q y"
      proof (cases "update_inducing_body env x")
        case (Inl a)
        with st e have "y = Inl a" by simp
        with err[OF i Inl] show ?thesis by simp
      next
        case (Inr l)
        show ?thesis
        proof (cases l)
          case (Continue s')
          with st e Inr have "f env s' = Some y" by simp
          from ih[OF this] step[OF i] Inr Continue show ?thesis by simp
        next
          case (Break s')
          with st e Inr have "y = Inr s'" by simp
          with brk[OF i] Inr Break show ?thesis by simp
        qed
      qed
    qed
  qed
  with run init show ?thesis by blast
qed

lemma while_true_invariant:
  assumes run: "while_true env s = Some (Inr s')"
    and init: "I s"
    and step: "\<And>s s'. I s \<Longrightarrow> update_inducing_body env s = Inr (Continue s') \<or>
                 update_inducing_body env s = Inr (Break s') \<Longrightarrow> I s'"
  shows "I s'"
proof -
  have "\<forall>t. Inr s' = (Inr t :: error + round) \<longrightarrow> I t"
    by (rule while_true_rule[OF run, where I=I and Q="\<lambda>r. \<forall>t. r = Inr t \<longrightarrow> I t"])
       (use init step in auto)
  then show ?thesis by simp
qed

lemma get_covloss_frame:
  assumes "get_covloss env c = Inr (beta, c')"
  shows "c' = c\<lparr>normalized := normalized c'\<rparr>"
    and "normalized c' \<noteq> None"
    and "normalized c = Some b \<Longrightarrow> normalized c' = Some b"
  using assms
  by (auto simp: get_covloss_def Let_def split: sum.splits if_splits prod.splits)



lemma calculate_results_frame:
  "calculate_results env c r = Inr (e, c') \<Longrightarrow> c' = c\<lparr>results := results c'\<rparr>"
  by (auto simp: calculate_results_def split: sum.splits if_splits prod.splits)

lemma add_bias_frame:
  "add_bias env c = Inr (e, c') \<Longrightarrow> c' = c\<lparr>bias_pot := bias_pot c', results := results c'\<rparr>"
  by (auto simp: add_bias_def Let_def split: sum.splits if_splits prod.splits option.splits)

lemma head_frame: "head env c = Inr c' \<Longrightarrow> c' = c\<lparr>model := model c'\<rparr>"
  by (auto simp: head_def Let_def split: if_splits)

lemma update_data_frame: "update_data env c tf = Inr (n, c') \<Longrightarrow> c' = c\<lparr>model := model c'\<rparr>"
  by (auto simp: update_data_def Let_def dest!: head_frame split: sum.splits if_splits prod.splits)















subsection \<open>Gradients\<close>



subsection \<open>The collective in the read path and in the bias\<close>

lemma grads_local:
  "\<not> is_distributed (atoms c) \<Longrightarrow>
   grads (env\<lparr>initialized := i, peers0 := p0, peers1 := p1, peers2 := p2\<rparr>) c x r = grads env c x r"
  by (simp add: grads_def)

lemma weighted_sum_local:
  "weighted_sum (env\<lparr>initialized := i, peers0 := p0, peers1 := p1, peers2 := p2\<rparr>) c w =
   weighted_sum env c w"
  by (simp add: weighted_sum_def cong: sum.case_cong)

lemma calculate_results_local:
  "\<not> is_distributed (atoms c) \<Longrightarrow>
   calculate_results (env\<lparr>initialized := i, peers0 := p0, peers1 := p1, peers2 := p2\<rparr>) c r =
   calculate_results env c r"
  by (simp add: calculate_results_def grads_local weighted_sum_local cong: sum.case_cong)

lemma get_covloss_local:
  "\<not> is_distributed (atoms c) \<Longrightarrow>
   get_covloss (env\<lparr>initialized := i, peers0 := p0, peers1 := p1, peers2 := p2\<rparr>) c =
   get_covloss env c"
  by (auto simp: get_covloss_def Let_def split: sum.splits prod.splits)

lemma add_bias_backend:
  assumes "\<not> is_distributed (atoms c)"
  shows "add_bias env c = Inr (e, c') \<Longrightarrow> initialized env"
    and "\<not> initialized env \<Longrightarrow> add_bias (env\<lparr>initialized := True\<rparr>) c = Inr (e, c') \<Longrightarrow>
         add_bias env c = Inl BackendError"
  using assms
  by (auto simp: add_bias_def mean_response_def all_reduce0_def Let_def weighted_sum_def grads_def
      split: sum.splits option.splits if_splits prod.splits)

text \<open>
  C10. On a configuration that is not split across workers, energy, forces, stress
  and covariance loss do not depend on the distributed backend at all (not on
  whether it is initialized, not on what other workers contribute), but \<^verbatim>\<open>add_bias\<close>
  returns only with an initialized backend: without one it fails in the
  all-reduce of the bias energy whenever it would have returned with one.
\<close>

theorem add_bias_needs_backend:
  assumes "\<not> is_distributed (atoms c)"
  shows "(\<forall>e c'. add_bias env c = Inr (e, c') \<longrightarrow> initialized env) \<and>
         (\<forall>e c'. \<not> initialized env \<and> add_bias (env\<lparr>initialized := True\<rparr>) c = Inr (e, c') \<longrightarrow>
                 add_bias env c = Inl BackendError) \<and>
         calculate_results (env\<lparr>initialized := i, peers0 := p0, peers1 := p1, peers2 := p2\<rparr>) c r =
           calculate_results env c r \<and>
         grads (env\<lparr>initialized := i, peers0 := p0, peers1 := p1, peers2 := p2\<rparr>) c x r =
           grads env c x r \<and>
         get_covloss (env\<lparr>initialized := i, peers0 := p0, peers1 := p1, peers2 := p2\<rparr>) c =
           get_covloss env c"
  using assms add_bias_backend[OF assms]
  by (auto simp: calculate_results_local grads_local get_covloss_local)

lemma upt3: "[0..<3] = [0, 1, 2]"
  by (simp add: eval_nat_numeral)

lemma add_bias7:
  "add_bias (env7\<lparr>initialized := True\<rparr>) (calc7\<lparr>bias := Some 1\<rparr>) =
     Inr (9, calc7\<lparr>bias := Some 1, bias_pot := Some [3],
            results := (results calc7)\<lparr>energy := 9\<rparr>\<rparr>)"
  by (simp add: add_bias_def mean_response_def calc7_def env7_def atoms7_def matmul_T_def size0_def dot_def
      sum_dim1_def pad_1d_def weighted_sum_def matvec_def all_reduce0_def grads_def Let_def
      zeros_like_def outer_sum_def flat_voigt_def upt3)

lemma calculate_results7:
  "calculate_results env7 (calc7\<lparr>bias := Some 1\<rparr>) True = Inr (0, calc7\<lparr>bias := Some 1\<rparr>)"
  by (simp add: calculate_results_def calc7_def env7_def atoms7_def  size0_def dot_def
      weighted_sum_def matvec_def grads_def Let_def
      zeros_like_def outer_sum_def flat_voigt_def upt3)

theorem add_bias_needs_backend_witness:
  "add_bias env7 (calc7\<lparr>bias := Some 1\<rparr>) = Inl BackendError \<and>
   calculate_results env7 (calc7\<lparr>bias := Some 1\<rparr>) True = Inr (0, calc7\<lparr>bias := Some 1\<rparr>) \<and>
   calculate_results (env7\<lparr>initialized := True\<rparr>) (calc7\<lparr>bias := Some 1\<rparr>) True =
     Inr (0, calc7\<lparr>bias := Some 1\<rparr>)"
proof -
  have nd: "\<not> is_distributed (atoms (calc7\<lparr>bias := Some 1\<rparr>))"
    by (simp add: calc7_def atoms7_def)
  have ni: "\<not> initialized env7" by (simp add: env7_def)
  have same: "env7\<lparr>initialized := True, peers0 := peers0 env7, peers1 := peers1 env7,
                   peers2 := peers2 env7\<rparr> = env7\<lparr>initialized := True\<rparr>"
    by simp
  from add_bias_needs_backend[OF nd, where env=env7 and i=True and ?p0.0="peers0 env7"
      and ?p1.0="peers1 env7" and ?p2.0="peers2 env7" and r=True]
    ni add_bias7 calculate_results7
  show ?thesis unfolding same by auto
qed

subsection \<open>One step on the example of two atoms\<close>

lemma calc2_fields:
  "model (calc2\<lparr>atoms := atoms2\<rparr>) = model2" "step (calc2\<lparr>atoms := atoms2\<rparr>) = 1"
  "atoms (calc2\<lparr>atoms := atoms2\<rparr>) = atoms2" "normalized (calc2\<lparr>atoms := atoms2\<rparr>) = None"
  by (simp_all add: calc2_def init_def)

lemma kernel_block2: "kernel_block env2 (calc2\<lparr>atoms := atoms2\<rparr>) = c2a"
  by (simp add: kernel_block_def c2a_def calc2_def init_def kern_def env2_def atoms2_def model2_def
      loc_of_def)

lemma grads2:
  "atoms c = atoms2 \<Longrightarrow> d_xyz e = None \<Longrightarrow> d_lll e = None \<Longrightarrow>
   grads env2 c e r = Inr ([[0, 0, 0], [0, 0, 0]], [[0, 0, 0], [0, 0, 0], [0, 0, 0]])"
  by (simp add: grads_def atoms2_def zeros_like_def outer_sum_def upt3 Let_def)

lemma calculate_results2a:
  "calculate_results env2 c2a True = Inr (2, c2a\<lparr>results := res2 2\<rparr>)"
proof -
  have w: "weighted_sum env2 c2a (mu (model c2a)) = Inr \<lparr>sval = 2, d_xyz = None, d_lll = None\<rparr>"
    by (simp add: weighted_sum_def matvec_def c2a_def calc2_def init_def model2_def dot_def env2_def)
  have a: "atoms c2a = atoms2" by (simp add: c2a_def)
  show ?thesis
    by (simp add: calculate_results_def w grads2[OF a] a flat_voigt_def res2_def)
       (simp add: atoms2_def)
qed

lemma get_covloss2a:
  "get_covloss env2 (c2a\<lparr>results := res2 2, blind := False\<rparr>) =
     Inr ([0, 0], c2a\<lparr>results := res2 2, blind := False, normalized := Some True\<rparr>)"
  by (simp add: get_covloss_def c2a_def calc2_def init_def model2_def matmul_T_def size0_def dot_def
      sqsum_dim0_def tdiv_def atoms2_def env2_def loc_of_def allclose_one_def isclose_one_def Let_def)

lemma get_covloss2b:
  "get_covloss env2 c2b = Inr ([0, 0], c2b)"
  by (simp add: get_covloss_def c2b_def c2a_def calc2_def init_def model2b_def matmul_T_def size0_def
      dot_def sqsum_dim0_def Let_def atoms2_def)

lemma add_inducing2: "add_inducing env2 model2 (loc_of 6 0) = model2b"
  by (simp add: add_inducing_def remake_def model2_def model2b_def env2_def)

lemma body2a:
  "update_inducing_body env2 (round7 (c2a\<lparr>results := res2 2, blind := False\<rparr>)) =
     Inr (Continue r2b)"
  apply (simp add: update_inducing_body_def round7_def get_covloss2a argsort_descending_def pick_def
      isclose_one_def)
  apply (simp add: c2a_def c2b_def calc2_def init_def atoms2_def local_env_def loc_of_def model2_def
      model2b_def ediff_add_def add_1inducing_def add_inducing_def remake_def cat_dim1_def kern_def
      size0_def env2_def tiny_def res2_def Let_def r2b_def)
  done

lemma body2b:
  "update_inducing_body env2 r2b =
     Inr (Break r2b)"
  apply (simp add: update_inducing_body_def r2b_def get_covloss2b argsort_descending_def pick_def
      isclose_one_def)
  apply (simp add: c2a_def c2b_def calc2_def init_def atoms2_def local_env_def loc_of_def model2_def
      model2b_def ediff_add_def add_1inducing_def add_inducing_def remake_def cat_dim1_def kern_def
      size0_def env2_def tiny_def res2_def Let_def r2b_def)
  done

lemma update_inducing2:
  "update_inducing env2 (c2a\<lparr>results := res2 2\<rparr>) = Some (Inr (1, c2b))"
proof -
  have "while_true env2 (round7 (c2a\<lparr>results := res2 2, blind := False\<rparr>)) = while_true env2 r2b"
    by (subst while_true.simps) (simp add: body2a)
  also have "\<dots> = Some (Inr r2b)"
    by (subst while_true.simps) (simp add: body2b)
  finally show ?thesis by (simp add: update_inducing_def round7_def r2b_def)
qed

lemma snapshot2: "snapshot env2 c2b True = snap2 2" "snapshot env2 c2b False = snap2 7"
  by (simp_all add: snapshot_def snap2_def c2b_def c2a_def res2_def exact_labels_def env2_def
      atoms2_def zeros_like_def)

lemma update_data2: "update_data env2 c2b True = Inr (1, c2c)"
  apply (simp add: update_data_def snapshot2 Let_def)
  apply (simp add: c2b_def c2a_def c2c_def calc2_def init_def add_1atoms_def remake_def ndata_def
      model2b_def env2_def head_def make_munu_def exact_labels_def snap2_def atoms2_def zeros_like_def
      Let_def)
  done

lemma update2: "update env2 (c2a\<lparr>results := res2 2\<rparr>) = Some (Inr ((1, 1), c2c))"
proof -
  have "blind c2b = False" by (simp add: c2b_def c2a_def calc2_def init_def)
  then show ?thesis by (simp add: update_def update_inducing2 update_data2)
qed

lemma calculate_results2c:
  "calculate_results env2 c2c False = Inr (4, c2c\<lparr>results := res2 4\<rparr>)"
proof -
  have w: "weighted_sum env2 c2c (mu (model c2c)) = Inr \<lparr>sval = 4, d_xyz = None, d_lll = None\<rparr>"
    by (simp add: weighted_sum_def matvec_def c2c_def c2b_def c2a_def calc2_def init_def model2b_def
        dot_def env2_def)
  have a: "atoms c2c = atoms2" by (simp add: c2c_def c2b_def c2a_def)
  show ?thesis
    by (simp add: calculate_results_def w grads2[OF a] a flat_voigt_def res2_def)
       (simp add: atoms2_def)
qed

lemma calculate2:
  "calculate env2 calc2 atoms2 = Some (Inr (c2c\<lparr>results := res2 4, step := 2\<rparr>))"
proof -
  have b: "build_a_model env2 (calc2\<lparr>atoms := atoms2\<rparr>) = Inr (False, calc2\<lparr>atoms := atoms2\<rparr>)"
    by (simp add: build_a_model_def calc2_fields)
  have bi: "bias c2c = None" "step c2c = 1"
    by (simp_all add: c2c_def c2b_def c2a_def calc2_def init_def)
  have al: "active_learning env2 False (c2a\<lparr>results := res2 2\<rparr>) = Some (Inr (c2c\<lparr>results := res2 4\<rparr>))"
    by (simp add: active_learning_def update2 bi calculate_results2c)
  have bs: "bias_and_step env2 (c2c\<lparr>results := res2 4\<rparr>) = Inr (c2c\<lparr>results := res2 4, step := 2\<rparr>)"
    by (simp add: bias_and_step_def bi)
  show ?thesis
    by (simp add: calculate_def b kernel_block2 calculate_results2a al bs)
qed

lemma c2e_fields:
  "atoms c2e = atoms2" "normalized c2e = Some True" "bias c2e = None" "step c2e = 2"
  "blind c2e = False" "results c2e = res2 4"
  "cov c2e = \<lparr>size1 = 2, entries = [[1, 1], [1, 1]]\<rparr>"
  "model c2e = model2b\<lparr>data := [snap2 7]\<rparr>"
  "ediff c2e = 1 / 10" "covdiff c2e = 1"
  by (simp_all add: c2e_def c2c_def c2b_def c2a_def calc2_def init_def)

lemma get_covloss2e: "get_covloss env2 c2e = Inr ([0, 0], c2e)"
  by (simp add: get_covloss_def c2e_fields model2b_def matmul_T_def size0_def
      dot_def sqsum_dim0_def Let_def atoms2_def)





subsection \<open>The cache and the inducing set\<close>

lemma remake_X: "X (remake env m) = X m" "data (remake env m) = data m"
  "species (remake env m) = species m"
  by (simp_all add: remake_def split: prod.splits)

lemma add_inducing_X: "X (add_inducing env m l) = X m @ [l]"
  "data (add_inducing env m l) = data m" "species (add_inducing env m l) = species m"
  by (simp_all add: add_inducing_def remake_X)

lemma add_1inducing_X:
  "add_1inducing env m l thr d = (added, delta, m') \<Longrightarrow>
   X m' = (if added then X m @ [l] else X m) \<and> data m' = data m \<and> species m' = species m \<and>
   (\<not> added \<longrightarrow> m' = m)"
  by (auto simp: add_1inducing_def Let_def add_inducing_X split: if_splits)

lemma add_1atoms_X: "X (add_1atoms env m new ed fd) = X m"
  "species (add_1atoms env m new ed fd) = species m"
  by (simp_all add: add_1atoms_def remake_X)

lemma make_munu_X: "X (make_munu env m) = X m" "data (make_munu env m) = data m"
  "species (make_munu env m) = species m"
  by (simp_all add: make_munu_def)

lemma kern_size1: "size1 (kern env a xs) = length xs" "size0 (kern env a xs) = length (loc a)"
  by (simp_all add: kern_def size0_def)

lemma cat_dim1_kern:
  assumes "cat_dim1 t (kern env a [l]) = Inr t'"
  shows "size1 t' = size1 t + 1"
    and "entries t' = map2 (\<lambda>row la. row @ [kern_fn env la l]) (entries t) (loc a)"
    and "size0 t' = size0 t"
  using assms
  by (auto simp: cat_dim1_def kern_def size0_def zip_map2 split_def split: if_splits)

text \<open>What a pass that adds a candidate does to the inducing set and to the cache.\<close>

lemma covdiff_add_extends:
  assumes "covdiff_add env s c k l = Inr r"
  shows "\<exists>s'. r = Continue s' \<and> added_indices s' = added_indices s @ [k] \<and>
           X (model (this s')) = X (model c) @ [l] \<and>
           size1 (cov (this s')) = size1 (cov c) + 1 \<and>
           entries (cov (this s')) =
             map2 (\<lambda>row la. row @ [kern_fn env la l]) (entries (cov c)) (loc (atoms c)) \<and>
           atoms (this s') = atoms c \<and> species (model (this s')) = species (model c)"
  using assms
  by (auto simp: covdiff_add_def add_inducing_X cat_dim1_kern split: sum.splits)

lemma ediff_add_extends:
  assumes "ediff_add env s c k l = Inr r"
  shows "(\<exists>s'. r = Continue s' \<and> added_indices s' = added_indices s @ [k] \<and>
            X (model (this s')) = X (model c) @ [l] \<and>
            size1 (cov (this s')) = size1 (cov c) + 1 \<and>
            entries (cov (this s')) =
              map2 (\<lambda>row la. row @ [kern_fn env la l]) (entries (cov c)) (loc (atoms c)) \<and>
            atoms (this s') = atoms c \<and> species (model (this s')) = species (model c)) \<or>
         r = Break (s\<lparr>this := c\<rparr>)"
proof -
  obtain added delta m where a: "add_1inducing env (model c) l
      (if length (X (model c)) > 1 then ediff c else tiny) False = (added, delta, m)"
    by (metis prod_cases3)
  note x = add_1inducing_X[OF a]
  show ?thesis
  proof (cases added)
    case True
    with assms a x show ?thesis
      by (auto simp: ediff_add_def Let_def cat_dim1_kern split: sum.splits)
  next
    case False
    with x have "m = model c" by simp
    with assms a False show ?thesis by (simp add: ediff_add_def Let_def)
  qed
qed

text \<open>The shape of a pass of the loop: what was read, and which way it went.\<close>

lemma update_inducing_body_cases:
  assumes "update_inducing_body env s = Inr r"
  obtains (full) "length (added_indices s) = natoms (atoms (this s))" "r = Break s"
  | (pass) beta c1 c2 k l where
      "length (added_indices s) \<noteq> natoms (atoms (this s))"
      "get_covloss env (this s) = Inr (beta, c1)"
      "pick (argsort_descending beta) (added_indices s) = Inr k"
      "c2 = (if isclose_one (beta ! k) then c1\<lparr>blind := True\<rparr> else c1)"
      "local_env (atoms c2) k = Inr l"
      "(if number l \<in> set (species (model c2)) then
              (if beta ! k > covdiff c2 then covdiff_add env s c2 k l
               else ediff_add env s c2 k l)
            else Inr (Continue (s\<lparr>this := c2\<rparr>))) = Inr r"
  using assms
  by (auto simp: update_inducing_body_def Let_def split: if_splits sum.splits prod.splits)

lemma update_inducing_body_effect:
  assumes b: "update_inducing_body env s = Inr r" and r: "r = Continue s' \<or> r = Break s'"
  shows "atoms (this s') = atoms (this s) \<and>
         species (model (this s')) = species (model (this s)) \<and>
         ((added_indices s' = added_indices s \<and> model (this s') = model (this s) \<and>
           cov (this s') = cov (this s)) \<or>
          (\<exists>beta c1 k l.
             get_covloss env (this s) = Inr (beta, c1) \<and>
             pick (argsort_descending beta) (added_indices s) = Inr k \<and>
             local_env (atoms (this s)) k = Inr l \<and>
             number l \<in> set (species (model (this s))) \<and>
             r = Continue s' \<and>
             added_indices s' = added_indices s @ [k] \<and>
             X (model (this s')) = X (model (this s)) @ [l] \<and>
             size1 (cov (this s')) = size1 (cov (this s)) + 1 \<and>
             entries (cov (this s')) =
               map2 (\<lambda>row la. row @ [kern_fn env la l]) (entries (cov (this s)))
                 (loc (atoms (this s)))))"
  using b
proof (cases rule: update_inducing_body_cases)
  case full
  with r show ?thesis by auto
next
  case (pass beta c1 c2 k l)
  from get_covloss_frame(1)[OF pass(2)]
  have c1: "atoms c1 = atoms (this s)" "model c1 = model (this s)" "cov c1 = cov (this s)"
    by (metis calc.select_convs calc.surjective calc.update_convs(8))+
  with pass(4) have c2: "atoms c2 = atoms (this s)" "model c2 = model (this s)"
    "cov c2 = cov (this s)"
    by auto
  show ?thesis
  proof (cases "number l \<in> set (species (model c2))")
    case False
    with pass(6) r have "s' = s\<lparr>this := c2\<rparr>" by auto
    with c2 show ?thesis by simp
  next
    case True
    show ?thesis
    proof (cases "beta ! k > covdiff c2")
      case gt: True
      with True pass(6) have "covdiff_add env s c2 k l = Inr r" by simp
      from covdiff_add_extends[OF this] r pass(2,3,5) True c2 show ?thesis by auto
    next
      case le: False
      with True pass(6) have "ediff_add env s c2 k l = Inr r" by simp
      from ediff_add_extends[OF this] r pass(2,3,5) True c2 show ?thesis by auto
    qed
  qed
qed

lemma update_inducing_body_cache:
  assumes "update_inducing_body env s = Inr (Continue s') \<or>
           update_inducing_body env s = Inr (Break s')"
    and "size1 (cov (this s)) = length (X (model (this s)))"
  shows "size1 (cov (this s')) = length (X (model (this s')))"
proof -
  from assms(1) obtain r where "update_inducing_body env s = Inr r" "r = Continue s' \<or> r = Break s'"
    by auto
  from update_inducing_body_effect[OF this] assms(2) show ?thesis by auto
qed

lemma update_inducing_cache:
  assumes "update_inducing env c = Some (Inr (m, c'))"
    and "size1 (cov c) = length (X (model c))"
  shows "size1 (cov c') = length (X (model c'))"
proof -
  let ?s0 = "\<lparr>this = c\<lparr>blind := False\<rparr>, added_beta = 0, added_diff = 0, added_indices = []\<rparr>"
  from assms(1) obtain s where w: "while_true env ?s0 = Some (Inr s)" and c': "c' = this s"
    by (auto simp: update_inducing_def split: option.splits sum.splits)
  have "size1 (cov (this s)) = length (X (model (this s)))"
    by (rule while_true_invariant[OF w,
          where I="\<lambda>s. size1 (cov (this s)) = length (X (model (this s)))"])
       (use assms(2) update_inducing_body_cache in auto)
  with c' show ?thesis by simp
qed

lemma head_X: "head env c = Inr c' \<Longrightarrow> X (model c') = X (model c) \<and> cov c' = cov c"
  by (auto simp: head_def Let_def make_munu_X split: if_splits)

lemma update_data_X:
  "update_data env c tf = Inr (n, c') \<Longrightarrow> X (model c') = X (model c) \<and> cov c' = cov c"
  by (auto simp: update_data_def Let_def add_1atoms_X dest!: head_X split: if_splits sum.splits)

lemma update_cache:
  assumes "update env c = Some (Inr (mn, c'))" "size1 (cov c) = length (X (model c))"
  shows "size1 (cov c') = length (X (model c'))"
proof -
  from assms(1) obtain m c1 where u: "update_inducing env c = Some (Inr (m, c1))"
    and r: "c' = c1 \<or> (\<exists>n. update_data env c1 (\<not> blind c1) = Inr (n, c'))"
    by (auto simp: update_def split: option.splits sum.splits if_splits prod.splits)
  from update_inducing_cache[OF u assms(2)] r show ?thesis
    by (auto dest: update_data_X)
qed

lemma calculate_results_cache:
  "calculate_results env c r = Inr (e, c') \<Longrightarrow> cov c' = cov c \<and> model c' = model c"
  by (drule calculate_results_frame) (metis calc.select_convs(1,10) calc.surjective calc.update_convs(11))

lemma add_bias_cache:
  "add_bias env c = Inr (e, c') \<Longrightarrow> cov c' = cov c \<and> model c' = model c"
  by (auto simp: add_bias_def Let_def split: sum.splits if_splits prod.splits option.splits)

lemma active_learning_cache:
  assumes "active_learning env skip c = Some (Inr c')" "size1 (cov c) = length (X (model c))"
  shows "size1 (cov c') = length (X (model c'))"
    and "\<not> skip \<Longrightarrow> \<exists>mn cu. update env c = Some (Inr (mn, cu)) \<and>
           size1 (cov cu) = length (X (model cu)) \<and>
           (c' = cu \<or> (\<exists>e. calculate_results env cu (bias cu \<noteq> None) = Inr (e, c')))"
proof -
  show "size1 (cov c') = length (X (model c'))"
  proof (cases skip)
    case True
    with assms show ?thesis by (simp add: active_learning_def)
  next
    case False
    with assms(1) obtain mn c1 where u: "update env c = Some (Inr (mn, c1))"
      and r: "c' = c1 \<or> (\<exists>e r. calculate_results env c1 r = Inr (e, c'))"
      by (auto simp: active_learning_def split: option.splits sum.splits if_splits prod.splits)
    from update_cache[OF u assms(2)] r show ?thesis by (auto dest: calculate_results_cache)
  qed
  show "\<exists>mn cu. update env c = Some (Inr (mn, cu)) \<and>
           size1 (cov cu) = length (X (model cu)) \<and>
           (c' = cu \<or> (\<exists>e. calculate_results env cu (bias cu \<noteq> None) = Inr (e, c')))"
    if "\<not> skip"
  proof -
    from that assms(1) obtain mn c1 where u: "update env c = Some (Inr (mn, c1))"
      and r: "c' = c1 \<or> (\<exists>e. calculate_results env c1 (bias c1 \<noteq> None) = Inr (e, c'))"
      by (auto simp: active_learning_def split: option.splits sum.splits if_splits prod.splits)
    from update_cache[OF u assms(2)] u r show ?thesis by blast
  qed
qed

lemma bias_and_step_cache:
  assumes "bias_and_step env c = Inr c'"
  shows "cov c' = cov c \<and> model c' = model c"
  using assms
  by (auto simp: bias_and_step_def dest: add_bias_cache split: if_splits sum.splits prod.splits)

text \<open>
  C2. In a step that returns, the cache has as many columns as the model has
  inducing points wherever energy, forces and stress are computed from it: after
  the block \<^verbatim>\<open># kernel\<close> (the first \<^verbatim>\<open>calculate_results\<close>), after \<^verbatim>\<open>update\<close> (the second
  one, when the model grew) and where \<^verbatim>\<open>add_bias\<close> starts; none of the three changes
  cache or model. A pass of the greedy loop that adds an atom appends its local
  environment to the inducing set and one entry to every row of the cache, the
  kernel value between the atom of the row and the new point; what the rows held
  stays as it was.
\<close>

theorem cache_columns_match_inducing_set:
  assumes run: "calculate env c a = Some (Inr c')"
  shows "(\<exists>skip c1 en c2 c3.
            build_a_model env (c\<lparr>atoms := a\<rparr>) = Inr (skip, c1) \<and>
            size1 (cov (kernel_block env c1)) = length (X (model (kernel_block env c1))) \<and>
            calculate_results env (kernel_block env c1) True = Inr (en, c2) \<and>
            active_learning env skip c2 = Some (Inr c3) \<and>
            (skip \<or> (\<exists>mn cu. update env c2 = Some (Inr (mn, cu)) \<and>
                       size1 (cov cu) = length (X (model cu)) \<and>
                       (c3 = cu \<or>
                        (\<exists>e. calculate_results env cu (bias cu \<noteq> None) = Inr (e, c3))))) \<and>
            size1 (cov c3) = length (X (model c3)) \<and>
            bias_and_step env c3 = Inr c' \<and>
            size1 (cov c') = length (X (model c'))) \<and>
         (\<forall>s s'. update_inducing_body env s = Inr (Continue s') \<and>
                  added_indices s' \<noteq> added_indices s \<longrightarrow>
            (\<exists>k l. local_env (atoms (this s)) k = Inr l \<and>
               added_indices s' = added_indices s @ [k] \<and>
               X (model (this s')) = X (model (this s)) @ [l] \<and>
               size1 (cov (this s')) = size1 (cov (this s)) + 1 \<and>
               entries (cov (this s')) =
                 map2 (\<lambda>row la. row @ [kern_fn env la l]) (entries (cov (this s)))
                   (loc (atoms (this s)))))"
proof -
  from run obtain skip c1 en c2 c3 where
    b: "build_a_model env (c\<lparr>atoms := a\<rparr>) = Inr (skip, c1)"
    and r: "calculate_results env (kernel_block env c1) True = Inr (en, c2)"
    and al: "active_learning env skip c2 = Some (Inr c3)"
    and bs: "bias_and_step env c3 = Inr c'"
    by (auto simp: calculate_def split: option.splits sum.splits prod.splits)
  have k: "size1 (cov (kernel_block env c1)) = length (X (model (kernel_block env c1)))"
    by (simp add: kernel_block_def kern_size1)
  with calculate_results_cache[OF r] have i2: "size1 (cov c2) = length (X (model c2))" by simp
  note i3 = active_learning_cache(1)[OF al i2]
  have u: "skip \<or> (\<exists>mn cu. update env c2 = Some (Inr (mn, cu)) \<and>
                       size1 (cov cu) = length (X (model cu)) \<and>
                       (c3 = cu \<or>
                        (\<exists>e. calculate_results env cu (bias cu \<noteq> None) = Inr (e, c3))))"
    using active_learning_cache(2)[OF al i2] by blast
  from bias_and_step_cache[OF bs] i3 have i4: "size1 (cov c') = length (X (model c'))" by simp
  have ext: "\<exists>k l. local_env (atoms (this s)) k = Inr l \<and>
               added_indices s' = added_indices s @ [k] \<and>
               X (model (this s')) = X (model (this s)) @ [l] \<and>
               size1 (cov (this s')) = size1 (cov (this s)) + 1 \<and>
               entries (cov (this s')) =
                 map2 (\<lambda>row la. row @ [kern_fn env la l]) (entries (cov (this s)))
                   (loc (atoms (this s)))"
    if "update_inducing_body env s = Inr (Continue s')" "added_indices s' \<noteq> added_indices s"
    for s s'
    using update_inducing_body_effect[OF that(1), of s'] that(2) by auto
  from b k r al u i3 bs i4 ext show ?thesis by blast
qed

subsection \<open>The energy-sensitivity add\<close>

lemma tiny_small: "0 < tiny \<and> tiny < 1 / 10 ^ 37"
proof -
  have "(10::real) ^ 37 < 2 ^ 126" by simp
  then show ?thesis by (simp add: tiny_def field_simps)
qed

lemma while_true_break:
  "update_inducing_body env s = Inr (Break s') \<Longrightarrow> while_true env s = Some (Inr s')"
  by (subst while_true.simps) simp

text \<open>
  C4, as amended. For a candidate whose species the model knows and whose score
  does not exceed \<^verbatim>\<open>covdiff\<close>, the pass is the energy-sensitivity add: the model is asked
  with the threshold \<^verbatim>\<open>torch.finfo().tiny\<close> (positive, below \<open>10\<^sup>-\<^sup>3\<^sup>7\<close>) when the
  inducing set has at most one member and with \<^verbatim>\<open>ediff\<close> otherwise. When the model
  adds the point the pass does not end the loop and the candidate is recorded; when
  it refuses, the pass ends in \<^verbatim>\<open>break\<close> and the loop returns at once.
\<close>

theorem ediff_add_for_known_species:
  assumes more: "length (added_indices s) \<noteq> natoms (atoms (this s))"
    and cl: "get_covloss env (this s) = Inr (beta, c1)"
    and pk: "pick (argsort_descending beta) (added_indices s) = Inr k"
    and c2: "c2 = (if isclose_one (beta ! k) then c1\<lparr>blind := True\<rparr> else c1)"
    and lo: "local_env (atoms c2) k = Inr l"
    and known: "number l \<in> set (species (model c2))"
    and le: "\<not> beta ! k > covdiff c2"
  shows "update_inducing_body env s = ediff_add env s c2 k l \<and>
         (\<exists>added delta m.
            add_1inducing env (model c2) l
              (if length (X (model c2)) > 1 then ediff c2 else tiny) False = (added, delta, m) \<and>
            (added \<longrightarrow> (\<forall>e. update_inducing_body env s \<noteq> Inr (Break e)) \<and>
               (\<forall>s'. update_inducing_body env s = Inr (Continue s') \<longrightarrow>
                  added_indices s' = added_indices s @ [k] \<and> model (this s') = m)) \<and>
            (\<not> added \<longrightarrow>
               update_inducing_body env s = Inr (Break (s\<lparr>this := c2\<rparr>)) \<and>
               while_true env s = Some (Inr (s\<lparr>this := c2\<rparr>)))) \<and>
         0 < tiny \<and> tiny < 1 / 10 ^ 37"
proof -
  have b: "update_inducing_body env s = ediff_add env s c2 k l"
    using more cl pk c2 lo known le
    by (simp add: update_inducing_body_def Let_def)
  obtain added delta m where a: "add_1inducing env (model c2) l
      (if length (X (model c2)) > 1 then ediff c2 else tiny) False = (added, delta, m)"
    by (metis prod_cases3)
  have yes: "(\<forall>e. update_inducing_body env s \<noteq> Inr (Break e)) \<and>
               (\<forall>s'. update_inducing_body env s = Inr (Continue s') \<longrightarrow>
                  added_indices s' = added_indices s @ [k] \<and> model (this s') = m)" if added
    using that a unfolding b
    by (auto simp: ediff_add_def Let_def split: sum.splits split del: if_split)
  have no: "update_inducing_body env s = Inr (Break (s\<lparr>this := c2\<rparr>))" if "\<not> added"
  proof -
    from add_1inducing_X[OF a] that have "m = model c2" by simp
    with that a show ?thesis unfolding b by (simp add: ediff_add_def Let_def split del: if_split)
  qed
  from a yes no while_true_break tiny_small b show ?thesis by blast
qed

subsection \<open>Growth of the training set\<close>

lemma snapshot_relabel:
  "(snapshot env c True)\<lparr>target_energy := fst (exact_labels env (conf (snapshot env c True))),
       target_forces := snd (exact_labels env (conf (snapshot env c True)))\<rparr> = snapshot env c False"
  by (simp add: snapshot_def Let_def)

lemma update_data_redundant:
  assumes "redundant env (model c) (snapshot env c tf) (ediff c) (fdiff c)"
  shows "update_data env c tf = Inr (0, c)"
  using assms by (simp add: update_data_def Let_def add_1atoms_def)

lemma update_data_accepted:
  assumes "\<not> redundant env (model c) (snapshot env c tf) (ediff c) (fdiff c)"
  shows "update_data env c tf =
           Inr (1, c\<lparr>model :=
                  (if tf then
                     make_munu env ((remake env ((model c)\<lparr>data := data (model c) @ [snapshot env c True]\<rparr>))
                                     \<lparr>data := data (model c) @ [snapshot env c False]\<rparr>)
                   else remake env ((model c)\<lparr>data := data (model c) @ [snapshot env c False]\<rparr>))\<rparr>)"
  using assms
  by (cases tf)
     (simp_all add: update_data_def Let_def add_1atoms_def ndata_def remake_X head_def
        snapshot_relabel)

text \<open>
  C6. \<^verbatim>\<open>update\<close> calls \<^verbatim>\<open>update_data\<close> only when \<^verbatim>\<open>update_inducing\<close> added a point, and
  with \<^verbatim>\<open>try_fake = not self.blind\<close>: the snapshot carries the labels of the reference
  calculator if and only if the round is flagged blind, and the energy and forces of
  the current results otherwise. A snapshot that the model refuses changes nothing.
  A snapshot that the model accepts ends up in the training set with the labels of
  the reference calculator; when it was submitted with the labels of the model, the
  labels are overwritten first and the mean/weight vector is recomputed after, from
  the overwritten labels.
\<close>

theorem training_set_growth:
  "(update_inducing env c = Some (Inr (m, c1)) \<longrightarrow>
      update env c =
        (if m > 0 then
           (case update_data env c1 (\<not> blind c1) of
              Inl e \<Rightarrow> Some (Inl e)
            | Inr (n, c2) \<Rightarrow> Some (Inr ((m, n), c2)))
         else Some (Inr ((m, 0), c1)))) \<and>
   snapshot env c1 (\<not> blind c1) =
     \<lparr>conf = atoms c1,
      target_energy = (if blind c1 then fst (exact env (atoms c1)) else energy (results c1)),
      target_forces = (if blind c1 then snd (exact env (atoms c1)) else forces (results c1))\<rparr> \<and>
   (redundant env (model c1) (snapshot env c1 tf) (ediff c1) (fdiff c1) \<longrightarrow>
      update_data env c1 tf = Inr (0, c1)) \<and>
   (\<not> redundant env (model c1) (snapshot env c1 tf) (ediff c1) (fdiff c1) \<longrightarrow>
      (\<exists>c2. update_data env c1 tf = Inr (1, c2) \<and>
         data (model c2) = data (model c1) @ [snapshot env c1 False] \<and>
         X (model c2) = X (model c1) \<and>
         (tf \<longrightarrow>
            model c2 =
              make_munu env
                ((add_1atoms env (model c1) (snapshot env c1 True) (ediff c1) (fdiff c1))
                   \<lparr>data := data (model c1) @ [snapshot env c1 False]\<rparr>) \<and>
            mu (model c2) =
              fst (posterior env (X (model c1)) (data (model c1) @ [snapshot env c1 False])))))"
proof -
  have 1: "update_inducing env c = Some (Inr (m, c1)) \<Longrightarrow>
      update env c =
        (if m > 0 then
           (case update_data env c1 (\<not> blind c1) of
              Inl e \<Rightarrow> Some (Inl e)
            | Inr (n, c2) \<Rightarrow> Some (Inr ((m, n), c2)))
         else Some (Inr ((m, 0), c1)))"
    by (simp add: update_def)
  have 2: "snapshot env c1 (\<not> blind c1) =
     \<lparr>conf = atoms c1,
      target_energy = (if blind c1 then fst (exact env (atoms c1)) else energy (results c1)),
      target_forces = (if blind c1 then snd (exact env (atoms c1)) else forces (results c1))\<rparr>"
    by (simp add: snapshot_def Let_def exact_labels_def)
  have 4: "\<exists>c2. update_data env c1 tf = Inr (1, c2) \<and>
         data (model c2) = data (model c1) @ [snapshot env c1 False] \<and>
         X (model c2) = X (model c1) \<and>
         (tf \<longrightarrow>
            model c2 =
              make_munu env
                ((add_1atoms env (model c1) (snapshot env c1 True) (ediff c1) (fdiff c1))
                   \<lparr>data := data (model c1) @ [snapshot env c1 False]\<rparr>) \<and>
            mu (model c2) =
              fst (posterior env (X (model c1)) (data (model c1) @ [snapshot env c1 False])))"
    if nr: "\<not> redundant env (model c1) (snapshot env c1 tf) (ediff c1) (fdiff c1)"
    using update_data_accepted[OF nr] nr
    by (cases tf) (simp_all add: make_munu_def remake_X add_1atoms_def)
  from 1 2 4 update_data_redundant show ?thesis by blast
qed

subsection \<open>The claims on the examples\<close>

theorem cache_columns_match_inducing_set_witness:
  "calculate env2 calc2 atoms2 = Some (Inr (c2c\<lparr>results := res2 4, step := 2\<rparr>)) \<and>
   size1 (cov (c2c\<lparr>results := res2 4, step := 2\<rparr>)) =
     length (X (model (c2c\<lparr>results := res2 4, step := 2\<rparr>))) \<and>
   length (X (model (c2c\<lparr>results := res2 4, step := 2\<rparr>))) = 2 \<and>
   (\<exists>k l. added_indices r2b = [k] \<and> X (model c2b) = X model2 @ [l] \<and>
      size1 (cov c2b) = 2 \<and>
      entries (cov c2b) = [[1] @ [kern_fn env2 (loc_of 6 0) l], [1] @ [kern_fn env2 (loc_of 6 1) l]])"
proof -
  let ?s = "round7 (c2a\<lparr>results := res2 2, blind := False\<rparr>)"
  have ne: "added_indices r2b \<noteq> added_indices ?s" by (simp add: r2b_def round7_def)
  have f: "added_indices ?s = []" "X (model (this ?s)) = X model2" "size1 (cov (this ?s)) = 1"
    "entries (cov (this ?s)) = [[1], [1]]"
    "loc (atoms (this ?s)) = [loc_of 6 0, loc_of 6 1]" "this r2b = c2b"
    by (simp_all add: round7_def c2a_def calc2_def init_def atoms2_def r2b_def)
  have n: "length (X (model (c2c\<lparr>results := res2 4, step := 2\<rparr>))) = 2"
    by (simp add: c2c_def model2b_def)
  from cache_columns_match_inducing_set[OF calculate2] body2a ne
  have "size1 (cov (c2c\<lparr>results := res2 4, step := 2\<rparr>)) =
          length (X (model (c2c\<lparr>results := res2 4, step := 2\<rparr>)))"
    and "\<exists>k l. local_env (atoms (this ?s)) k = Inr l \<and>
               added_indices r2b = added_indices ?s @ [k] \<and>
               X (model (this r2b)) = X (model (this ?s)) @ [l] \<and>
               size1 (cov (this r2b)) = size1 (cov (this ?s)) + 1 \<and>
               entries (cov (this r2b)) =
                 map2 (\<lambda>row la. row @ [kern_fn env2 la l]) (entries (cov (this ?s)))
                   (loc (atoms (this ?s)))"
    by blast+
  with calculate2 n show ?thesis unfolding f by auto
qed

theorem ediff_add_for_known_species_witness:
  "update_inducing_body env2 (round7 c2e) = Inr (Break (round7 c2e)) \<and>
   while_true env2 (round7 c2e) = Some (Inr (round7 c2e)) \<and>
   length (X (model c2e)) = 2 \<and>
   fst (add_1inducing env2 (model c2e) (loc_of 6 0) (ediff c2e) False) = False"
proof -
  have more: "length (added_indices (round7 c2e)) \<noteq> natoms (atoms (this (round7 c2e)))"
    by (simp add: round7_def c2e_fields atoms2_def)
  have cl: "get_covloss env2 (this (round7 c2e)) = Inr ([0, 0], c2e)"
    by (simp add: round7_def get_covloss2e)
  have pk: "pick (argsort_descending [0, 0]) (added_indices (round7 c2e)) = Inr 0"
    by (simp add: round7_def argsort_descending_def pick_def)
  have c2: "c2e = (if isclose_one ([0, 0] ! 0) then c2e\<lparr>blind := True\<rparr> else c2e)"
    by (simp add: isclose_one_def)
  have lo: "local_env (atoms c2e) 0 = Inr (loc_of 6 0)"
    by (simp add: c2e_fields atoms2_def local_env_def)
  have known: "number (loc_of 6 0) \<in> set (species (model c2e))"
    by (simp add: c2e_fields model2b_def loc_of_def)
  have le: "\<not> [0, 0] ! 0 > covdiff c2e" by (simp add: c2e_fields)
  have len: "length (X (model c2e)) = 2" by (simp add: c2e_fields model2b_def)
  have rej: "add_1inducing env2 (model c2e) (loc_of 6 0)
               (if length (X (model c2e)) > 1 then ediff c2e else tiny) False = (False, 0, model c2e)"
    by (simp add: add_1inducing_def env2_def c2e_fields model2b_def)
  have e: "round7 c2e\<lparr>this := c2e\<rparr> = round7 c2e" by (simp add: round7_def)
  from ediff_add_for_known_species[OF more cl pk c2 lo known le] rej
  have "update_inducing_body env2 (round7 c2e) = Inr (Break (round7 c2e\<lparr>this := c2e\<rparr>)) \<and>
        while_true env2 (round7 c2e) = Some (Inr (round7 c2e\<lparr>this := c2e\<rparr>))"
    by auto
  with rej len show ?thesis unfolding e by simp
qed

text \<open>
  C4 as stated fails for a candidate whose species the model does not know: on the
  example of seven atoms the candidate is atom 3 (oxygen) with score 1, which does
  not exceed \<^verbatim>\<open>covdiff = 1\<close>; the inducing set has one member and the model would add
  the point at the threshold \<^verbatim>\<open>tiny\<close>; yet the pass asks the model nothing, adds
  nothing and does not end the loop.
\<close>

theorem ediff_add_unknown_species_counterexample:
  "\<exists>beta c1 k l c2.
     length (added_indices (round7 (calc7\<lparr>blind := False\<rparr>))) \<noteq>
       natoms (atoms (this (round7 (calc7\<lparr>blind := False\<rparr>)))) \<and>
     get_covloss env7 (this (round7 (calc7\<lparr>blind := False\<rparr>))) = Inr (beta, c1) \<and>
     pick (argsort_descending beta) (added_indices (round7 (calc7\<lparr>blind := False\<rparr>))) = Inr k \<and>
     c2 = (if isclose_one (beta ! k) then c1\<lparr>blind := True\<rparr> else c1) \<and>
     local_env (atoms c2) k = Inr l \<and>
     \<not> beta ! k > covdiff c2 \<and>
     length (X (model c2)) \<le> 1 \<and>
     fst (add_1inducing env7 (model c2) l tiny False) \<and>
     update_inducing_body env7 (round7 (calc7\<lparr>blind := False\<rparr>)) = Inr (Continue (round7 c2)) \<and>
     update_inducing_body env7 (round7 (calc7\<lparr>blind := False\<rparr>)) \<noteq>
       ediff_add env7 (round7 (calc7\<lparr>blind := False\<rparr>)) c2 k l"
proof -
  let ?s = "round7 (calc7\<lparr>blind := False\<rparr>)"
  let ?c1 = "calc7\<lparr>blind := False, normalized := Some True\<rparr>"
  let ?c2 = "?c1\<lparr>blind := True\<rparr>"
  have more: "length (added_indices ?s) \<noteq> natoms (atoms (this ?s))"
    by (simp add: round7_def calc7_def atoms7_def)
  have cl: "get_covloss env7 (this ?s) = Inr ([0, 0, 0, 1, 1, 1, 1], ?c1)"
    by (simp add: round7_def, rule get_covloss7) (simp_all add: calc7_def)
  have pk: "pick (argsort_descending [0, 0, 0, 1, 1, 1, 1]) (added_indices ?s) = Inr 3"
    by (simp add: round7_def argsort_descending_def pick_def)
  have c2: "?c2 = (if isclose_one ([0, 0, 0, 1, 1, 1, 1] ! 3) then ?c1\<lparr>blind := True\<rparr> else ?c1)"
    by (simp add: isclose_one_def)
  have lo: "local_env (atoms ?c2) 3 = Inr (loc_of 8 3)"
    by (simp add: calc7_def atoms7_def locs7_def local_env_def)
  have le: "\<not> [0, 0, 0, 1, 1, 1, 1] ! 3 > covdiff ?c2" by (simp add: calc7_def)
  have len: "length (X (model ?c2)) \<le> 1" by (simp add: calc7_def)
  have acc: "fst (add_1inducing env7 (model ?c2) (loc_of 8 3) tiny False)"
    using tiny_small by (simp add: add_1inducing_def env7_def Let_def)
  have b: "update_inducing_body env7 ?s = Inr (Continue (round7 ?c2))"
    using update_inducing_body7[of "calc7\<lparr>blind := False\<rparr>"] by (simp add: calc7_def)
  have ne: "update_inducing_body env7 ?s \<noteq> ediff_add env7 ?s ?c2 3 (loc_of 8 3)"
  proof
    assume eq: "update_inducing_body env7 ?s = ediff_add env7 ?s ?c2 3 (loc_of 8 3)"
    with b have "ediff_add env7 ?s ?c2 3 (loc_of 8 3) = Inr (Continue (round7 ?c2))" by simp
    from ediff_add_extends[OF this] show False by (auto simp: round7_def)
  qed
  from more cl pk c2 lo le len acc b ne show ?thesis by blast
qed

theorem training_set_growth_witness:
  "update env2 (c2a\<lparr>results := res2 2\<rparr>) = Some (Inr ((1, 1), c2c)) \<and>
   \<not> blind c2b \<and>
   target_energy (snapshot env2 c2b (\<not> blind c2b)) = energy (results c2b) \<and>
   energy (results c2b) = 2 \<and>
   data (model c2c) = data (model c2b) @ [snapshot env2 c2b False] \<and>
   target_energy (snapshot env2 c2b False) = 7 \<and>
   mu (model c2c) = fst (posterior env2 (X (model c2b)) [snapshot env2 c2b False])"
proof -
  have nb: "\<not> blind c2b" by (simp add: c2b_def c2a_def calc2_def init_def)
  have nr: "\<not> redundant env2 (model c2b) (snapshot env2 c2b True) (ediff c2b) (fdiff c2b)"
    by (simp add: env2_def)
  have d: "data (model c2b) = []" "energy (results c2b) = 2"
    by (simp_all add: c2b_def model2b_def res2_def)
  from training_set_growth[where env=env2 and c="c2a\<lparr>results := res2 2\<rparr>" and m=1 and ?c1.0=c2b
      and tf=True] update_inducing2 nb nr update_data2
  have "update env2 (c2a\<lparr>results := res2 2\<rparr>) = Some (Inr ((1, 1), c2c))"
    and "target_energy (snapshot env2 c2b (\<not> blind c2b)) = energy (results c2b)"
    and "data (model c2c) = data (model c2b) @ [snapshot env2 c2b False]"
    and "mu (model c2c) = fst (posterior env2 (X (model c2b)) (data (model c2b) @ [snapshot env2 c2b False]))"
    by auto
  with nb d snapshot2 show ?thesis by (simp add: snap2_def)
qed

subsection \<open>The bias accumulator\<close>

lemma dot_scale: "dot r (map (\<lambda>x. k * x) v) = k * dot r v"
proof -
  have "sum_list (map2 (*) r (map (\<lambda>x. k * x) v)) = k * sum_list (map2 (*) r v)"
  proof (induction r arbitrary: v)
    case Nil then show ?case by simp
  next
    case (Cons a r)
    then show ?case by (cases v) (simp_all add: algebra_simps)
  qed
  then show ?thesis by (simp add: dot_def)
qed

lemma matvec_scale:
  "matvec t v = Inr w \<Longrightarrow> matvec t (map (\<lambda>x. k * x) v) = Inr (map (\<lambda>x. k * x) w)"
  by (auto simp: matvec_def dot_scale split: if_splits)

lemma sum_list_scale: "sum_list (map (\<lambda>x. k * x) (w :: real list)) = k * sum_list w"
  by (induction w) (simp_all add: algebra_simps)

lemma map2_add_scale:
  "map2 (+) (map (\<lambda>x. j * x) v) (map (\<lambda>x. b * x) v) = map (\<lambda>x. (j + b) * (x :: real)) v"
  by (induction v) (simp_all add: algebra_simps)

lemma add_bias_unfold:
  assumes "add_bias env c = Inr (e, c')"
  obtains b mu' padded pot w bf bs where
    "bias c = Some b" "mean_response env c = Inr mu'"
    "pad_1d (case bias_pot c of None \<Rightarrow> replicate (size1 (cov c)) 0 | Some p \<Rightarrow> p) mu' = Inr padded"
    "pot = map2 (+) padded (map (\<lambda>x. b * x) mu')"
    "matvec (cov c) pot = Inr w"
    "e = sum_list w + peers0 env (sum_list w)"
    "initialized env"
    "c' = c\<lparr>bias_pot := Some pot,
           results := \<lparr>energy = energy (results c) + e,
                       forces = map2 (map2 (+)) (forces (results c)) bf,
                       stress = map2 (+) (stress (results c)) (flat_voigt bs)\<rparr>\<rparr>"
    "grads env (c\<lparr>bias_pot := Some pot\<rparr>)
        \<lparr>sval = e, d_xyz = fst (autograd env (atoms c) (cov c) pot),
         d_lll = snd (autograd env (atoms c) (cov c) pot)\<rparr> False = Inr (bf, bs)"
  using assms
  by (auto simp: add_bias_def Let_def weighted_sum_def all_reduce0_def
      split: sum.splits option.splits prod.splits if_splits)

lemma mean_response_frame:
  "mean_response env (c\<lparr>bias_pot := p, results := r\<rparr>) = mean_response env c"
  by (simp add: mean_response_def cong: sum.case_cong)

lemma pad_1d_same: "length a = length b \<Longrightarrow> pad_1d a b = Inr a"
  by (simp add: pad_1d_def)

lemma pad_1d_length: "pad_1d a b = Inr p \<Longrightarrow> length p = length b \<and> take (length a) p = a"
  by (auto simp: pad_1d_def split: if_splits)

lemma map_zero_scale: "replicate (length v) 0 = map (\<lambda>x. 0 :: real) v"
  by (induction v) simp_all

text \<open>
  One visit, from an accumulator that is \<open>j\<close> times the mean response (or fresh, with
  \<open>j = 0\<close>), when no other worker adds to the bias energy.
\<close>

lemma add_bias_visit:
  assumes run: "add_bias env c = Inr (e, c')"
    and single: "\<forall>t. peers0 env t = 0"
    and mr: "mean_response env c = Inr mu'"
    and len: "size1 (cov c) = length mu'"
    and acc: "bias_pot c = Some (map (\<lambda>x. j * x) mu') \<or> (bias_pot c = None \<and> j = 0)"
    and b: "bias c = Some b"
  shows "bias_pot c' = Some (map (\<lambda>x. (j + b) * x) mu')"
    and "e = (j + b) * sum_list (map (\<lambda>r. dot r mu') (entries (cov c)))"
    and "cov c' = cov c" and "bias c' = Some b" and "mean_response env c' = Inr mu'"
proof -
  from run obtain b' mu'' padded pot w bf bs where u:
    "bias c = Some b'" "mean_response env c = Inr mu''"
    "pad_1d (case bias_pot c of None \<Rightarrow> replicate (size1 (cov c)) 0 | Some p \<Rightarrow> p) mu'' = Inr padded"
    "pot = map2 (+) padded (map (\<lambda>x. b' * x) mu'')"
    "matvec (cov c) pot = Inr w"
    "e = sum_list w + peers0 env (sum_list w)"
    "c' = c\<lparr>bias_pot := Some pot,
           results := \<lparr>energy = energy (results c) + e,
                       forces = map2 (map2 (+)) (forces (results c)) bf,
                       stress = map2 (+) (stress (results c)) (flat_voigt bs)\<rparr>\<rparr>"
    by (rule add_bias_unfold)
  from u(1,2) b mr have eq: "b' = b" "mu'' = mu'" by simp_all
  have p0: "(case bias_pot c of None \<Rightarrow> replicate (size1 (cov c)) 0 | Some p \<Rightarrow> p) =
            map (\<lambda>x. j * x) mu'"
    using acc len by (auto simp: map_zero_scale)
  have "padded = map (\<lambda>x. j * x) mu'"
    using u(3) unfolding p0 eq by (simp add: pad_1d_same)
  with u(4) eq have pot: "pot = map (\<lambda>x. (j + b) * x) mu'" by (simp add: map2_add_scale)
  have mv: "matvec (cov c) mu' = Inr (map (\<lambda>r. dot r mu') (entries (cov c)))"
    using len by (simp add: matvec_def)
  from matvec_scale[OF mv, of "j + b"] u(5) pot
  have w: "w = map (\<lambda>x. (j + b) * x) (map (\<lambda>r. dot r mu') (entries (cov c)))" by simp
  show "bias_pot c' = Some (map (\<lambda>x. (j + b) * x) mu')" using u(7) pot by simp
  show "e = (j + b) * sum_list (map (\<lambda>r. dot r mu') (entries (cov c)))"
  proof -
    have "sum_list w = (j + b) * sum_list (map (\<lambda>r. dot r mu') (entries (cov c)))"
      unfolding w by (rule sum_list_scale)
    with u(6) single show ?thesis by simp
  qed
  show "cov c' = cov c" "bias c' = Some b" using u(7) b by simp_all
  show "mean_response env c' = Inr mu'" using u(7) mr by (simp add: mean_response_frame)
qed

lemma revisit_energy:
  assumes "revisit env c n = Inr (e, c')"
    and "\<forall>t. peers0 env t = 0"
    and "mean_response env c = Inr mu'"
    and "size1 (cov c) = length mu'"
    and "bias_pot c = Some (map (\<lambda>x. j * x) mu') \<or> (bias_pot c = None \<and> j = 0)"
    and "bias c = Some b"
  shows "e = (j + real (Suc n) * b) * sum_list (map (\<lambda>r. dot r mu') (entries (cov c)))"
  using assms
proof (induction n arbitrary: c j)
  case 0
  then have "add_bias env c = Inr (e, c')" by simp
  from add_bias_visit(2)[OF this 0(2,3,4,5,6)] show ?case by simp
next
  case (Suc n)
  from Suc.prems(1) obtain be c1 where a: "add_bias env c = Inr (be, c1)"
    and r: "revisit env c1 n = Inr (e, c')"
    by (auto split: sum.splits)
  note v = add_bias_visit[OF a Suc.prems(2,3,4,5,6)]
  have "e = (j + b + real (Suc n) * b) * sum_list (map (\<lambda>r. dot r mu') (entries (cov c1)))"
    by (rule Suc.IH[OF r Suc.prems(2) v(5)]) (use v Suc.prems(4) in auto)
  with v(3) show ?case by (simp add: algebra_simps)
qed

lemma revisit_first:
  "revisit env c n = Inr r \<Longrightarrow> \<exists>e0 c0. add_bias env c = Inr (e0, c0)"
  by (cases n) (auto split: sum.splits)

lemma add_bias_shape:
  assumes "add_bias env c = Inr (e, c')" "mean_response env c = Inr mu'"
  shows "size1 (cov c) = length mu'"
proof -
  from assms(1) obtain b' mu'' padded pot w where u:
    "mean_response env c = Inr mu''"
    "pad_1d (case bias_pot c of None \<Rightarrow> replicate (size1 (cov c)) 0 | Some p \<Rightarrow> p) mu'' = Inr padded"
    "pot = map2 (+) padded (map (\<lambda>x. b' * x) mu'')"
    "matvec (cov c) pot = Inr w"
    by (rule add_bias_unfold)
  from u(1) assms(2) have "mu'' = mu'" by simp
  with pad_1d_length[OF u(2)] u(3) have "length pot = length mu'" by simp
  with u(4) show ?thesis by (auto simp: matvec_def split: if_splits)
qed

lemma revisit_fresh:
  assumes fresh: "bias_pot c = None" and single: "\<forall>t. peers0 env t = 0"
    and run: "revisit env c n = Inr (e, c')"
  shows "\<exists>e0 c0. add_bias env c = Inr (e0, c0) \<and> e = real (Suc n) * e0 \<and>
           (\<forall>e1 c1. revisit env c (Suc n) = Inr (e1, c1) \<longrightarrow>
              e1 = real (Suc (Suc n)) * e0 \<and> \<bar>e\<bar> \<le> \<bar>e1\<bar>)"
proof -
  from revisit_first[OF run] obtain e0 c0 where a: "add_bias env c = Inr (e0, c0)" by blast
  from a obtain b mu' where b: "bias c = Some b" and mr: "mean_response env c = Inr mu'"
    by (rule add_bias_unfold)
  note len = add_bias_shape[OF a mr]
  have acc: "bias_pot c = Some (map (\<lambda>x. 0 * x) mu') \<or> (bias_pot c = None \<and> (0::real) = 0)"
    using fresh by simp
  let ?D = "sum_list (map (\<lambda>r. dot r mu') (entries (cov c)))"
  have e0: "e0 = b * ?D" using add_bias_visit(2)[OF a single mr len acc b] by simp
  have en: "e = real (Suc n) * e0"
    using revisit_energy[OF run single mr len acc b] e0 by simp
  have "e1 = real (Suc (Suc n)) * e0 \<and> \<bar>e\<bar> \<le> \<bar>e1\<bar>"
    if "revisit env c (Suc n) = Inr (e1, c1)" for e1 c1
  proof -
    have e1: "e1 = real (Suc (Suc n)) * e0"
      using revisit_energy[OF that single mr len acc b] e0 by simp
    have "\<bar>e\<bar> = real (Suc n) * \<bar>e0\<bar>" unfolding en by (simp add: abs_mult)
    moreover have "\<bar>e1\<bar> = real (Suc (Suc n)) * \<bar>e0\<bar>" unfolding e1 by (simp add: abs_mult)
    moreover have "real (Suc n) * \<bar>e0\<bar> \<le> real (Suc (Suc n)) * \<bar>e0\<bar>"
      by (rule mult_right_mono) simp_all
    ultimately show ?thesis using e1 by simp
  qed
  with a en show ?thesis by blast
qed

lemma get_covloss_fields:
  assumes "get_covloss env c = Inr (beta, c')"
  shows "bias_pot c' = bias_pot c \<and> bias c' = bias c \<and> step c' = step c \<and> atoms c' = atoms c"
  using assms
  by (auto simp: get_covloss_def Let_def split: sum.splits if_splits prod.splits)

lemma covdiff_add_fields:
  "covdiff_add env s c k l = Inr (Continue s') \<or> covdiff_add env s c k l = Inr (Break s') \<Longrightarrow>
   bias_pot (this s') = bias_pot c \<and> bias (this s') = bias c \<and> step (this s') = step c \<and>
   atoms (this s') = atoms c"
  by (auto simp: covdiff_add_def split: sum.splits)

lemma ediff_add_fields:
  "ediff_add env s c k l = Inr (Continue s') \<or> ediff_add env s c k l = Inr (Break s') \<Longrightarrow>
   bias_pot (this s') = bias_pot c \<and> bias (this s') = bias c \<and> step (this s') = step c \<and>
   atoms (this s') = atoms c"
  by (auto simp: ediff_add_def Let_def split: sum.splits prod.splits if_splits)

lemma update_inducing_body_frame:
  assumes "update_inducing_body env s = Inr (Continue s') \<or>
           update_inducing_body env s = Inr (Break s')"
  shows "bias_pot (this s') = bias_pot (this s) \<and> bias (this s') = bias (this s) \<and>
         step (this s') = step (this s) \<and> atoms (this s') = atoms (this s)"
proof -
  from assms obtain r where b: "update_inducing_body env s = Inr r"
    and r: "r = Continue s' \<or> r = Break s'" by auto
  from b show ?thesis
  proof (cases rule: update_inducing_body_cases)
    case full
    with r show ?thesis by auto
  next
    case (pass beta c1 c2 k l)
    from get_covloss_fields[OF pass(2)] pass(4)
    have c2: "bias_pot c2 = bias_pot (this s) \<and> bias c2 = bias (this s) \<and>
              step c2 = step (this s) \<and> atoms c2 = atoms (this s)"
      by auto
    show ?thesis
    proof (cases "number l \<in> set (species (model c2))")
      case False
      with pass(6) r have "s' = s\<lparr>this := c2\<rparr>" by auto
      with c2 show ?thesis by simp
    next
      case True
      show ?thesis
      proof (cases "beta ! k > covdiff c2")
        case gt: True
        with True pass(6) have "covdiff_add env s c2 k l = Inr r" by simp
        with r covdiff_add_fields[of env s c2 k l s'] c2 show ?thesis by auto
      next
        case le: False
        with True pass(6) have "ediff_add env s c2 k l = Inr r" by simp
        with r ediff_add_fields[of env s c2 k l s'] c2 show ?thesis by auto
      qed
    qed
  qed
qed

lemma update_inducing_frame:
  assumes "update_inducing env c = Some (Inr (m, c'))"
  shows "bias_pot c' = bias_pot c \<and> bias c' = bias c \<and> step c' = step c \<and> atoms c' = atoms c"
proof -
  let ?s0 = "\<lparr>this = c\<lparr>blind := False\<rparr>, added_beta = 0, added_diff = 0, added_indices = []\<rparr>"
  from assms obtain s where w: "while_true env ?s0 = Some (Inr s)" and c': "c' = this s"
    by (auto simp: update_inducing_def split: option.splits sum.splits)
  have "bias_pot (this s) = bias_pot c \<and> bias (this s) = bias c \<and> step (this s) = step c \<and>
        atoms (this s) = atoms c"
    by (rule while_true_invariant[OF w,
          where I="\<lambda>s. bias_pot (this s) = bias_pot c \<and> bias (this s) = bias c \<and>
                      step (this s) = step c \<and> atoms (this s) = atoms c"])
       (use update_inducing_body_frame in auto)
  with c' show ?thesis by simp
qed

lemma update_bias_pot:
  assumes "update env c = Some (Inr (mn, c'))"
  shows "bias_pot c' = bias_pot c \<and> bias c' = bias c \<and> step c' = step c"
proof -
  from assms obtain m c1 where u: "update_inducing env c = Some (Inr (m, c1))"
    and r: "c' = c1 \<or> (\<exists>n. update_data env c1 (\<not> blind c1) = Inr (n, c'))"
    by (auto simp: update_def split: option.splits sum.splits if_splits prod.splits)
  from update_inducing_frame[OF u] have 1: "bias_pot c1 = bias_pot c \<and> bias c1 = bias c \<and> step c1 = step c"
    by simp
  from r show ?thesis
  proof
    assume "c' = c1" with 1 show ?thesis by simp
  next
    assume "\<exists>n. update_data env c1 (\<not> blind c1) = Inr (n, c')"
    then obtain n where "update_data env c1 (\<not> blind c1) = Inr (n, c')" ..
    from update_data_frame[OF this] have "c' = c1\<lparr>model := model c'\<rparr>" .
    then have "bias_pot c' = bias_pot c1 \<and> bias c' = bias c1 \<and> step c' = step c1"
      by (cases c', cases c1) simp
    with 1 show ?thesis by simp
  qed
qed

lemma calculate_results_bias_pot:
  "calculate_results env c r = Inr (e, c') \<Longrightarrow>
   bias_pot c' = bias_pot c \<and> bias c' = bias c \<and> step c' = step c"
  by (auto simp: calculate_results_def split: sum.splits if_splits prod.splits)

lemma build_a_model_bias_pot:
  "build_a_model env c = Inr (skip, c') \<Longrightarrow>
   bias_pot c' = bias_pot c \<and> bias c' = bias c \<and> step c' = step c"
  by (auto simp: build_a_model_def initiate_model_def Let_def split: if_splits sum.splits)

lemma active_learning_bias_pot:
  assumes "active_learning env skip c = Some (Inr c')"
  shows "bias_pot c' = bias_pot c \<and> bias c' = bias c \<and> step c' = step c"
proof (cases skip)
  case True
  with assms show ?thesis by (simp add: active_learning_def)
next
  case False
  with assms obtain mn c1 where u: "update env c = Some (Inr (mn, c1))"
    and r: "c' = c1 \<or> (\<exists>e r. calculate_results env c1 r = Inr (e, c'))"
    by (auto simp: active_learning_def split: option.splits sum.splits if_splits prod.splits)
  from update_bias_pot[OF u] r show ?thesis by (auto dest: calculate_results_bias_pot)
qed

lemma calculate_bias_pot:
  assumes "calculate env c a = Some (Inr c2)"
  shows "case bias c of
           None \<Rightarrow> bias_pot c2 = bias_pot c
         | Some b \<Rightarrow> (\<exists>c3 e3 c4. bias_pot c3 = bias_pot c \<and> bias c3 = Some b \<and>
                         add_bias env c3 = Inr (e3, c4) \<and> bias_pot c2 = bias_pot c4)"
proof -
  from assms obtain skip c1 en cr c3 where
    b: "build_a_model env (c\<lparr>atoms := a\<rparr>) = Inr (skip, c1)"
    and r: "calculate_results env (kernel_block env c1) True = Inr (en, cr)"
    and al: "active_learning env skip cr = Some (Inr c3)"
    and bs: "bias_and_step env c3 = Inr c2"
    by (auto simp: calculate_def split: option.splits sum.splits prod.splits)
  from build_a_model_bias_pot[OF b] calculate_results_bias_pot[OF r] active_learning_bias_pot[OF al]
  have 3: "bias_pot c3 = bias_pot c" "bias c3 = bias c" by (simp_all add: kernel_block_def)
  show ?thesis
  proof (cases "bias c")
    case None
    with 3 bs show ?thesis by (auto simp: bias_and_step_def)
  next
    case (Some b)
    with 3 bs obtain e3 c4 where "add_bias env c3 = Inr (e3, c4)" "c2 = c4\<lparr>step := step c4 + 1\<rparr>"
      by (auto simp: bias_and_step_def split: sum.splits prod.splits)
    with 3 Some show ?thesis by auto
  qed
qed

lemma add_bias_law:
  assumes "add_bias env c = Inr (e, c')"
  shows "\<exists>b mu'. bias c = Some b \<and> mean_response env c = Inr mu' \<and>
           length (case bias_pot c of None \<Rightarrow> replicate (size1 (cov c)) 0 | Some p \<Rightarrow> p)
             \<le> length mu' \<and>
           bias_pot c' =
             Some (map2 (+)
                    ((case bias_pot c of None \<Rightarrow> replicate (size1 (cov c)) 0 | Some p \<Rightarrow> p) @
                     replicate (length mu' -
                       length (case bias_pot c of None \<Rightarrow> replicate (size1 (cov c)) 0
                               | Some p \<Rightarrow> p)) 0)
                    (map (\<lambda>x. b * x) mu')) \<and>
           length mu' = size1 (cov c) \<and> cov c' = cov c \<and> model c' = model c \<and>
           atoms c' = atoms c \<and> bias c' = bias c"
proof -
  from assms obtain b mu' padded pot w bf bs where u:
    "bias c = Some b" "mean_response env c = Inr mu'"
    "pad_1d (case bias_pot c of None \<Rightarrow> replicate (size1 (cov c)) 0 | Some p \<Rightarrow> p) mu' = Inr padded"
    "pot = map2 (+) padded (map (\<lambda>x. b * x) mu')"
    "matvec (cov c) pot = Inr w"
    "e = sum_list w + peers0 env (sum_list w)"
    "initialized env"
    "c' = c\<lparr>bias_pot := Some pot,
           results := \<lparr>energy = energy (results c) + e,
                       forces = map2 (map2 (+)) (forces (results c)) bf,
                       stress = map2 (+) (stress (results c)) (flat_voigt bs)\<rparr>\<rparr>"
    by (rule add_bias_unfold)
  from u(3) have p: "length (case bias_pot c of None \<Rightarrow> replicate (size1 (cov c)) 0 | Some p \<Rightarrow> p)
             \<le> length mu'"
    and pd: "padded = (case bias_pot c of None \<Rightarrow> replicate (size1 (cov c)) 0 | Some p \<Rightarrow> p) @
                     replicate (length mu' -
                       length (case bias_pot c of None \<Rightarrow> replicate (size1 (cov c)) 0
                               | Some p \<Rightarrow> p)) 0"
    by (auto simp: pad_1d_def split: if_splits)
  from add_bias_shape[OF assms u(2)] have "length mu' = size1 (cov c)" by simp
  with u(1,2,4,8) p pd show ?thesis by auto
qed

text \<open>
  C7, as amended. A call of \<^verbatim>\<open>add_bias\<close> that returns leaves as accumulator the old
  one (zeros of the width of the cache when there was none), padded with zeros to
  the size of the mean response, plus the bias scale times the mean response; the
  accumulator then has one entry per column of the cache. No other part of a step
  touches the accumulator: a step without bias keeps it, a step with bias changes it
  by that one call. When the calls start from no accumulator and nothing but this
  worker adds to the bias energy, the call number \<open>n + 1\<close> on an unchanged cache and
  model returns \<open>n + 1\<close> times the bias energy of the first call, so the magnitudes
  do not decrease.
\<close>

theorem bias_potential_accumulates:
  "(add_bias env c = Inr (e, c') \<longrightarrow>
      (\<exists>b mu'. bias c = Some b \<and> mean_response env c = Inr mu' \<and>
           length (case bias_pot c of None \<Rightarrow> replicate (size1 (cov c)) 0 | Some p \<Rightarrow> p)
             \<le> length mu' \<and>
           bias_pot c' =
             Some (map2 (+)
                    ((case bias_pot c of None \<Rightarrow> replicate (size1 (cov c)) 0 | Some p \<Rightarrow> p) @
                     replicate (length mu' -
                       length (case bias_pot c of None \<Rightarrow> replicate (size1 (cov c)) 0
                               | Some p \<Rightarrow> p)) 0)
                    (map (\<lambda>x. b * x) mu')) \<and>
           length mu' = size1 (cov c) \<and> cov c' = cov c \<and> model c' = model c \<and>
           atoms c' = atoms c \<and> bias c' = bias c)) \<and>
   (calculate env c a = Some (Inr c2) \<longrightarrow>
      (case bias c of
         None \<Rightarrow> bias_pot c2 = bias_pot c
       | Some b \<Rightarrow> (\<exists>c3 e3 c4. bias_pot c3 = bias_pot c \<and> bias c3 = Some b \<and>
                       add_bias env c3 = Inr (e3, c4) \<and> bias_pot c2 = bias_pot c4))) \<and>
   (bias_pot c = None \<and> (\<forall>t. peers0 env t = 0) \<and> revisit env c n = Inr (en, cn) \<longrightarrow>
      (\<exists>e0 c0. add_bias env c = Inr (e0, c0) \<and> en = real (Suc n) * e0 \<and>
           (\<forall>e1 c1. revisit env c (Suc n) = Inr (e1, c1) \<longrightarrow>
              e1 = real (Suc (Suc n)) * e0 \<and> \<bar>en\<bar> \<le> \<bar>e1\<bar>)))"
proof (intro conjI impI)
  assume "add_bias env c = Inr (e, c')"
  from add_bias_law[OF this]
  show "\<exists>b mu'. bias c = Some b \<and> mean_response env c = Inr mu' \<and>
           length (case bias_pot c of None \<Rightarrow> replicate (size1 (cov c)) 0 | Some p \<Rightarrow> p)
             \<le> length mu' \<and>
           bias_pot c' =
             Some (map2 (+)
                    ((case bias_pot c of None \<Rightarrow> replicate (size1 (cov c)) 0 | Some p \<Rightarrow> p) @
                     replicate (length mu' -
                       length (case bias_pot c of None \<Rightarrow> replicate (size1 (cov c)) 0
                               | Some p \<Rightarrow> p)) 0)
                    (map (\<lambda>x. b * x) mu')) \<and>
           length mu' = size1 (cov c) \<and> cov c' = cov c \<and> model c' = model c \<and>
           atoms c' = atoms c \<and> bias c' = bias c" .
next
  assume "calculate env c a = Some (Inr c2)"
  from calculate_bias_pot[OF this]
  show "case bias c of
         None \<Rightarrow> bias_pot c2 = bias_pot c
       | Some b \<Rightarrow> (\<exists>c3 e3 c4. bias_pot c3 = bias_pot c \<and> bias c3 = Some b \<and>
                       add_bias env c3 = Inr (e3, c4) \<and> bias_pot c2 = bias_pot c4)" .
next
  assume "bias_pot c = None \<and> (\<forall>t. peers0 env t = 0) \<and> revisit env c n = Inr (en, cn)"
  then have f: "bias_pot c = None" and s: "\<forall>t. peers0 env t = 0"
    and r: "revisit env c n = Inr (en, cn)" by simp_all
  from revisit_fresh[OF f s r]
  show "\<exists>e0 c0. add_bias env c = Inr (e0, c0) \<and> en = real (Suc n) * e0 \<and>
           (\<forall>e1 c1. revisit env c (Suc n) = Inr (e1, c1) \<longrightarrow>
              e1 = real (Suc (Suc n)) * e0 \<and> \<bar>en\<bar> \<le> \<bar>e1\<bar>)" .
qed

subsection \<open>Steps that add nothing, and the bias on the examples\<close>

lemma get_covloss_steady2: "steady2 c \<Longrightarrow> get_covloss env2 c = Inr ([0, 0], c)"
  by (simp add: steady2_def get_covloss_def model2b_def matmul_T_def size0_def
      dot_def sqsum_dim0_def Let_def atoms2_def)

lemma update_inducing_body_steady2:
  assumes "steady2 c"
  shows "update_inducing_body env2 (round7 c) = Inr (Break (round7 c))"
  using assms
  apply (simp add: update_inducing_body_def round7_def get_covloss_steady2 argsort_descending_def
      pick_def isclose_one_def)
  apply (simp add: steady2_def atoms2_def local_env_def loc_of_def model2b_def ediff_add_def
      add_1inducing_def env2_def Let_def)
  done

lemma update_steady2:
  assumes "steady2 c"
  shows "update env2 c = Some (Inr ((0, 0), c))"
proof -
  have e: "c\<lparr>blind := False\<rparr> = c" using assms by (cases c) (auto simp: steady2_def)
  have "while_true env2 (round7 c) = Some (Inr (round7 c))"
    by (subst while_true.simps) (simp add: update_inducing_body_steady2[OF assms])
  then have "update_inducing env2 c = Some (Inr (0, c))"
    using e by (simp add: update_inducing_def round7_def)
  then show ?thesis by (simp add: update_def)
qed

lemma calculate_results_steady2:
  assumes "steady2 c"
  shows "calculate_results env2 c r = Inr (4, c\<lparr>results := res2 4\<rparr>)"
proof -
  from assms have a: "atoms c = atoms2" by (simp add: steady2_def)
  have w: "weighted_sum env2 c (mu (model c)) = Inr \<lparr>sval = 4, d_xyz = None, d_lll = None\<rparr>"
    using assms
    by (simp add: steady2_def weighted_sum_def matvec_def model2b_def dot_def env2_def)
  have nd: "\<not> is_distributed (atoms c)" by (simp add: a atoms2_def)
  show ?thesis
    by (simp add: calculate_results_def w grads2[OF a] nd flat_voigt_def res2_def)
qed

lemma steady2_results: "steady2 c \<Longrightarrow> steady2 (c\<lparr>results := r\<rparr>)"
  by (simp add: steady2_def)

lemma calculate_steady2:
  assumes "steady2 c"
  shows "calculate env2 c atoms2 = Some (bias_and_step env2 (c\<lparr>results := res2 4\<rparr>))"
proof -
  have a: "c\<lparr>atoms := atoms2\<rparr> = c" using assms by (cases c) (auto simp: steady2_def)
  have b: "build_a_model env2 c = Inr (False, c)"
    using assms by (simp add: build_a_model_def steady2_def)
  have k: "kernel_block env2 c = c"
  proof -
    have "kern env2 atoms2 (X (model c)) = cov c"
      using assms by (simp add: kern_def steady2_def model2b_def env2_def atoms2_def loc_of_def)
    then show ?thesis using assms by (cases c) (auto simp: kernel_block_def steady2_def)
  qed
  have al: "active_learning env2 False (c\<lparr>results := res2 4\<rparr>) = Some (Inr (c\<lparr>results := res2 4\<rparr>))"
    by (simp add: active_learning_def update_steady2[OF steady2_results[OF assms]])
  show ?thesis
    by (simp add: calculate_def a b k calculate_results_steady2[OF assms] al)
qed

lemma mean_response_steady2: "steady2 c \<Longrightarrow> mean_response env2 c = Inr [4, 4]"
  by (simp add: mean_response_def steady2_def model2b_def matmul_T_def size0_def dot_def
      sum_dim1_def atoms2_def)

lemma add_bias_steady2:
  assumes "steady2 c" "bias c = Some 1" "results c = res2 x"
    "bias_pot c = None \<and> p = 0 \<or> bias_pot c = Some [p, p]"
  shows "add_bias env2 c =
           Inr (4 * (p + 4), c\<lparr>bias_pot := Some [p + 4, p + 4], results := res2 (x + 4 * (p + 4))\<rparr>)"
proof -
  from assms(1) have a: "atoms c = atoms2" and cv: "cov c = \<lparr>size1 = 2, entries = [[1, 1], [1, 1]]\<rparr>"
    by (simp_all add: steady2_def)
  have p0: "(case bias_pot c of None \<Rightarrow> replicate (size1 (cov c)) 0 | Some p \<Rightarrow> p) = [p, p]"
    using assms(4) cv by (auto simp: eval_nat_numeral)
  have g: "grads env2 (c\<lparr>bias_pot := Some [p + 4, p + 4]\<rparr>)
             \<lparr>sval = v, d_xyz = None, d_lll = None\<rparr> False =
           Inr ([[0, 0, 0], [0, 0, 0]], [[0, 0, 0], [0, 0, 0], [0, 0, 0]])" for v
    by (rule grads2) (simp_all add: a)
  show ?thesis
    unfolding add_bias_def p0 mean_response_steady2[OF assms(1)]
    by (simp add: assms(2,3) pad_1d_def weighted_sum_def matvec_def cv dot_def env2_def
        all_reduce0_def g[unfolded env2_def] flat_voigt_def res2_def algebra_simps)
qed

lemma grads1:
  "atoms c = atoms1 \<Longrightarrow> d_xyz e = None \<Longrightarrow> d_lll e = None \<Longrightarrow>
   grads env2 c e r = Inr ([[0, 0, 0]], [[0, 0, 0], [0, 0, 0], [0, 0, 0]])"
  by (simp add: grads_def atoms1_def zeros_like_def outer_sum_def upt3 Let_def)

lemma env2_backend:
  "initialized env2" "peers0 env2 t = 0" "autograd env2 a c w = (None, None)"
  by (simp_all add: env2_def)

lemma add_bias_one_atom:
  assumes "atoms c = atoms1" "model c = model2" "bias c = Some 1"
    "cov c = \<lparr>size1 = 1, entries = [[k]]\<rparr>"
    "bias_pot c = None \<and> p = 0 \<or> bias_pot c = Some [p]"
  shows "\<exists>c'. add_bias env2 c = Inr (k * (p + k), c') \<and> bias_pot c' = Some [p + k] \<and>
           atoms c' = atoms1 \<and> model c' = model2 \<and> bias c' = Some 1 \<and> cov c' = cov c"
proof -
  have p0: "(case bias_pot c of None \<Rightarrow> replicate (size1 (cov c)) 0 | Some p \<Rightarrow> p) = [p]"
    using assms(4,5) by auto
  have mr: "mean_response env2 c = Inr [k]"
    by (simp add: mean_response_def assms model2_def matmul_T_def size0_def dot_def sum_dim1_def
        atoms1_def)
  have "add_bias env2 c =
          Inr (k * (p + k),
               c\<lparr>bias_pot := Some [p + k],
                  results := \<lparr>energy = energy (results c) + k * (p + k),
                              forces = map2 (map2 (+)) (forces (results c)) [[0, 0, 0]],
                              stress = map2 (+) (stress (results c))
                                         (flat_voigt [[0, 0, 0], [0, 0, 0], [0, 0, 0]])\<rparr>\<rparr>)"
    unfolding add_bias_def p0 mr
    by (simp add: assms(1,3,4) pad_1d_def weighted_sum_def matvec_def dot_def env2_backend
        all_reduce0_def grads1 Let_def algebra_simps)
  with assms show ?thesis by simp
qed

lemma revisit_one_atom:
  assumes "atoms c = atoms1" "model c = model2" "bias c = Some 1"
    "cov c = \<lparr>size1 = 1, entries = [[k]]\<rparr>"
    "bias_pot c = None \<and> p = 0 \<or> bias_pot c = Some [p]"
  shows "\<exists>c'. revisit env2 c n = Inr (k * (p + real (Suc n) * k), c') \<and>
           bias_pot c' = Some [p + real (Suc n) * k] \<and>
           atoms c' = atoms1 \<and> model c' = model2 \<and> bias c' = Some 1 \<and> cov c' = cov c"
  using assms
proof (induction n arbitrary: c p)
  case 0
  from add_bias_one_atom[OF 0] show ?case by simp
next
  case (Suc n)
  from add_bias_one_atom[OF Suc.prems] obtain c1 where
    a: "add_bias env2 c = Inr (k * (p + k), c1)" and f: "bias_pot c1 = Some [p + k]"
    "atoms c1 = atoms1" "model c1 = model2" "bias c1 = Some 1" "cov c1 = cov c"
    by blast
  from f(5) Suc.prems(4) have cv: "cov c1 = \<lparr>size1 = 1, entries = [[k]]\<rparr>" by simp
  from f(1) have acc: "bias_pot c1 = None \<and> p + k = 0 \<or> bias_pot c1 = Some [p + k]" by simp
  from Suc.IH[OF f(2,3,4) cv acc] obtain c' where
    r: "revisit env2 c1 n = Inr (k * (p + k + real (Suc n) * k), c')"
    and g: "bias_pot c' = Some [p + k + real (Suc n) * k]"
    "atoms c' = atoms1" "model c' = model2" "bias c' = Some 1" "cov c' = cov c1"
    by blast
  have eq: "p + k + real (Suc n) * k = p + real (Suc (Suc n)) * k" by (simp add: algebra_simps)
  from a r g f(5) show ?case unfolding eq by simp
qed

text \<open>
  C7 as stated fails when the accumulator holds the history of another
  configuration. One atom with covariance \<open>-1\<close> to the inducing point is visited five
  times from a fresh accumulator, which leaves the accumulator at \<open>-5\<close>; then an atom
  with covariance \<open>1\<close> is visited twice: the bias energies are \<open>-4\<close> and \<open>-3\<close>, and the
  magnitude decreases.
\<close>

theorem bias_energy_magnitude_counterexample:
  "\<exists>e5 cA e1 c1 e2 c2.
     bias_pot (calc1 (- 1) None) = None \<and>
     revisit env2 (calc1 (- 1) None) 4 = Inr (e5, cA) \<and>
     bias_pot cA = Some [- 5] \<and>
     revisit env2 (cA\<lparr>cov := \<lparr>size1 = 1, entries = [[1]]\<rparr>\<rparr>) 0 = Inr (e1, c1) \<and>
     revisit env2 (cA\<lparr>cov := \<lparr>size1 = 1, entries = [[1]]\<rparr>\<rparr>) 1 = Inr (e2, c2) \<and>
     e1 = - 4 \<and> e2 = - 3 \<and> \<bar>e2\<bar> < \<bar>e1\<bar>"
proof -
  have "\<exists>c'. revisit env2 (calc1 (- 1) None) 4 = Inr (- 1 * (0 + real (Suc 4) * - 1), c') \<and>
           bias_pot c' = Some [0 + real (Suc 4) * - 1] \<and>
           atoms c' = atoms1 \<and> model c' = model2 \<and> bias c' = Some 1 \<and>
           cov c' = cov (calc1 (- 1) None)"
    by (rule revisit_one_atom) (simp_all add: calc1_def)
  then obtain cA where A: "revisit env2 (calc1 (- 1) None) 4 = Inr (5, cA)"
    "bias_pot cA = Some [- 5]" "atoms cA = atoms1" "model cA = model2" "bias cA = Some 1"
    by auto
  let ?cB = "cA\<lparr>cov := \<lparr>size1 = 1, entries = [[1]]\<rparr>\<rparr>"
  have B: "\<exists>c'. revisit env2 ?cB n = Inr (1 * (- 5 + real (Suc n) * 1), c') \<and>
           bias_pot c' = Some [- 5 + real (Suc n) * 1] \<and>
           atoms c' = atoms1 \<and> model c' = model2 \<and> bias c' = Some 1 \<and> cov c' = cov ?cB" for n
    by (rule revisit_one_atom) (simp_all add: A)
  from B[of 0] obtain c1 where 1: "revisit env2 ?cB 0 = Inr (- 4, c1)" by auto
  from B[of 1] obtain c2 where 2: "revisit env2 ?cB 1 = Inr (- 3, c2)" by auto
  have f: "bias_pot (calc1 (- 1) None) = None" by (simp add: calc1_def)
  from f A(1,2) 1 2 show ?thesis by force
qed

theorem bias_potential_accumulates_witness:
  "\<exists>c1 c2.
     calculate env2 (c2e\<lparr>bias := Some 1\<rparr>) atoms2 = Some (Inr c1) \<and> bias_pot c1 = Some [4, 4] \<and>
     calculate env2 c1 atoms2 = Some (Inr c2) \<and> bias_pot c2 = Some [8, 8] \<and>
     energy (results c1) = 4 + 16 \<and> energy (results c2) = 4 + 32 \<and>
     fst (projr (revisit env2 (c2e\<lparr>bias := Some 1\<rparr>) 0)) = 16 \<and>
     fst (projr (revisit env2 (c2e\<lparr>bias := Some 1\<rparr>) 1)) = 32"
proof -
  let ?c = "c2e\<lparr>bias := Some 1\<rparr>"
  have s: "steady2 ?c" by (simp add: steady2_def c2e_fields)
  have b: "bias ?c = Some 1" "bias_pot ?c = None" "results ?c = res2 4" "step ?c = 2"
    by (simp_all add: c2e_fields) (simp add: c2e_def c2c_def c2b_def c2a_def calc2_def init_def)
  have r: "?c\<lparr>results := res2 4\<rparr> = ?c" using c2e_fields(6) by (cases c2e) auto
  let ?c1' = "?c\<lparr>bias_pot := Some [4, 4], results := res2 20\<rparr>"
  have a1: "add_bias env2 ?c = Inr (16, ?c1')"
    using add_bias_steady2[OF s b(1,3), of 0] b(2) by simp
  let ?c1 = "?c1'\<lparr>step := 3\<rparr>"
  have c1: "calculate env2 ?c atoms2 = Some (Inr ?c1)"
    unfolding calculate_steady2[OF s] r by (simp add: bias_and_step_def a1 b(1) c2e_fields(4))
  have s1: "steady2 (?c1\<lparr>results := res2 4\<rparr>)" using s by (simp add: steady2_def)
  have s1': "steady2 ?c1" using s by (simp add: steady2_def)
  let ?c2' = "?c1\<lparr>results := res2 4\<rparr>\<lparr>bias_pot := Some [8, 8], results := res2 36\<rparr>"
  have a2: "add_bias env2 (?c1\<lparr>results := res2 4\<rparr>) = Inr (32, ?c2')"
    using add_bias_steady2[OF s1, of 4 4] by simp
  have c2: "calculate env2 ?c1 atoms2 = Some (Inr (?c2'\<lparr>step := 4\<rparr>))"
    unfolding calculate_steady2[OF s1'] using a2 by (simp add: bias_and_step_def)
  have s1'': "steady2 ?c1'" using s by (simp add: steady2_def)
  have a2': "add_bias env2 ?c1' = Inr (4 * (4 + 4), ?c1'\<lparr>bias_pot := Some [4 + 4, 4 + 4],
      results := res2 (20 + 4 * (4 + 4))\<rparr>)"
    by (rule add_bias_steady2[OF s1'']) simp_all
  have single: "\<forall>t. peers0 env2 t = 0" by (simp add: env2_def)
  have r0: "revisit env2 ?c 0 = Inr (16, ?c1')" using a1 by simp
  have r1: "\<exists>cc. revisit env2 ?c 1 = Inr (32, cc)" using a1 a2' by simp
  then obtain cc where r1': "revisit env2 ?c 1 = Inr (32, cc)" ..
  from bias_potential_accumulates[where env=env2 and c="?c" and e=16 and c'="?c1'" and a=atoms2
      and ?c2.0="?c1" and n=0 and en=16 and cn="?c1'"] a1 c1 b single r0 r1'
  have "bias_pot ?c1 = Some [4, 4]" "\<bar>16 :: real\<bar> \<le> \<bar>32\<bar>" by auto
  with c1 c2 r0 r1' show ?thesis by (auto simp: res2_def)
qed

subsection \<open>Bootstrap\<close>

lemma first_of_each_range:
  "i \<in> set (first_of_each seen j zs) \<Longrightarrow> j \<le> i \<and> i < j + length zs"
proof (induction zs arbitrary: seen j)
  case Nil then show ?case by simp
next
  case (Cons z zs)
  then show ?case by (fastforce split: if_splits)
qed

lemma first_of_each_species:
  "distinct (map (\<lambda>i. zs ! (i - j)) (first_of_each seen j zs)) \<and>
   set (map (\<lambda>i. zs ! (i - j)) (first_of_each seen j zs)) = set zs - set seen"
proof (induction zs arbitrary: seen j)
  case Nil then show ?case by simp
next
  case (Cons z zs)
  have shift: "map (\<lambda>i. (z # zs) ! (i - j)) (first_of_each s (Suc j) zs) =
               map (\<lambda>i. zs ! (i - Suc j)) (first_of_each s (Suc j) zs)" for s
  proof (rule map_cong[OF refl])
    fix i assume "i \<in> set (first_of_each s (Suc j) zs)"
    from first_of_each_range[OF this] have "Suc j \<le> i" by simp
    then have "i - j = Suc (i - Suc j)" by simp
    then show "(z # zs) ! (i - j) = zs ! (i - Suc j)" by simp
  qed
  show ?case
  proof (cases "z \<in> set seen")
    case True
    then have f: "first_of_each seen j (z # zs) = first_of_each seen (Suc j) zs" by simp
    from Cons.IH[where seen=seen and j="Suc j"] True show ?thesis
      unfolding f shift by auto
  next
    case False
    then have f: "first_of_each seen j (z # zs) = j # first_of_each (z # seen) (Suc j) zs"
      by simp
    from Cons.IH[where seen="z # seen" and j="Suc j"] False show ?thesis
      unfolding f list.map distinct.simps list.set shift by auto
  qed
qed

lemma first_of_each_atom_type_props:
  "\<forall>j\<in>set (first_of_each_atom_type a). j < length (gathered a)"
  "distinct (map number (map (\<lambda>j. gathered a ! j) (first_of_each_atom_type a)))"
  "set (map number (map (\<lambda>j. gathered a ! j) (first_of_each_atom_type a))) =
     set (map number (gathered a))"
proof -
  let ?zs = "map number (gathered a)"
  let ?i = "first_of_each [] 0 ?zs"
  show r: "\<forall>j\<in>set (first_of_each_atom_type a). j < length (gathered a)"
    using first_of_each_range[where seen="[]" and j=0 and zs="?zs"] by (auto simp: first_of_each_atom_type_def)
  have eq: "map number (map (\<lambda>j. gathered a ! j) ?i) = map (\<lambda>i. ?zs ! (i - 0)) ?i"
    using r by (auto simp: first_of_each_atom_type_def)
  from first_of_each_species[where zs="?zs" and j=0 and seen="[]"]
  show "distinct (map number (map (\<lambda>j. gathered a ! j) (first_of_each_atom_type a)))"
    and "set (map number (map (\<lambda>j. gathered a ! j) (first_of_each_atom_type a))) =
     set (map number (gathered a))"
    unfolding first_of_each_atom_type_def eq by simp_all
qed

lemma initiate_loop_foldl:
  assumes "\<forall>j\<in>set js. j < length locs"
  shows "initiate_loop env ed locs i js m =
           Inr (foldl (\<lambda>m j. snd (snd (add_1inducing env m (locs ! j) ed True))) m
                  (filter (\<lambda>j. j \<notin> set i) js))"
  using assms by (induction js arbitrary: m) simp_all

lemma initiate_loop_model:
  assumes "initiate_loop env ed locs i js m = Inr m'"
  shows "data m' = data m \<and> species m' = species m \<and>
         (\<exists>rest. X m' = X m @ rest \<and> set rest \<subseteq> {locs ! j | j. j \<in> set js \<and> j \<notin> set i})"
  using assms
proof (induction js arbitrary: m)
  case Nil
  then show ?case by simp
next
  case (Cons j js)
  show ?case
  proof (cases "j \<in> set i")
    case True
    with Cons.prems have "initiate_loop env ed locs i js m = Inr m'" by simp
    from Cons.IH[OF this] show ?thesis by auto
  next
    case False
    obtain added delta m1 where a: "add_1inducing env m (locs ! j) ed True = (added, delta, m1)"
      by (metis prod_cases3)
    from False Cons.prems a have r: "initiate_loop env ed locs i js m1 = Inr m'"
      by (simp split: if_splits)
    from add_1inducing_X[OF a] have m1: "data m1 = data m" "species m1 = species m"
      "X m1 = X m @ (if added then [locs ! j] else [])" by auto
    from Cons.IH[OF r] obtain rest where
      "data m' = data m1" "species m' = species m1" "X m' = X m1 @ rest"
      "set rest \<subseteq> {locs ! j | j. j \<in> set js \<and> j \<notin> set i}" by blast
    with m1 False have "data m' = data m \<and> species m' = species m \<and>
      X m' = X m @ ((if added then [locs ! j] else []) @ rest) \<and>
      set ((if added then [locs ! j] else []) @ rest) \<subseteq>
        {locs ! ja | ja. ja \<in> set (j # js) \<and> ja \<notin> set i}"
      by auto
    then show ?thesis by blast
  qed
qed

lemma initiate_model_result:
  assumes "initiate_model env c = Inr c'"
  shows "data (model c') = [snapshot env c False]"
    and "\<exists>rest. X (model c') =
           map (\<lambda>j. gathered (atoms c) ! j) (first_of_each_atom_type (atoms c)) @ rest \<and>
           set rest \<subseteq> {gathered (atoms c) ! j | j.
                          j < natoms (atoms c) \<and> j \<notin> set (first_of_each_atom_type (atoms c))}"
    and "natoms (atoms c) \<le> length (gathered (atoms c)) \<Longrightarrow>
         model c' =
           foldl (\<lambda>m j. snd (snd (add_1inducing env m (gathered (atoms c) ! j) (ediff c) True)))
             (set_data env (model c) [snapshot env c False]
                (map (\<lambda>j. gathered (atoms c) ! j) (first_of_each_atom_type (atoms c))))
             (filter (\<lambda>j. j \<notin> set (first_of_each_atom_type (atoms c))) [0..<natoms (atoms c)])"
    and "c' = c\<lparr>model := model c'\<rparr>"
proof -
  let ?snap = "snapshot env c False"
  let ?i = "first_of_each_atom_type (atoms c)"
  let ?locs = "gathered (atoms c)"
  let ?m = "set_data env (model c) [?snap] (map (\<lambda>j. ?locs ! j) ?i)"
  have cs: "conf ?snap = atoms c" by (simp add: snapshot_def Let_def)
  from assms obtain m' where
    l: "initiate_loop env (ediff c) ?locs ?i [0..<natoms (atoms c)] ?m = Inr m'"
    and c': "c' = c\<lparr>model := m'\<rparr>"
    by (auto simp: initiate_model_def Let_def cs split: sum.splits)
  from c' show "c' = c\<lparr>model := model c'\<rparr>" by simp
  have m: "data ?m = [?snap]" "X ?m = map (\<lambda>j. ?locs ! j) ?i"
    by (simp_all add: set_data_def remake_X)
  from initiate_loop_model[OF l] m c'
  show "data (model c') = [snapshot env c False]"
    and "\<exists>rest. X (model c') = map (\<lambda>j. ?locs ! j) ?i @ rest \<and>
           set rest \<subseteq> {?locs ! j | j. j < natoms (atoms c) \<and> j \<notin> set ?i}"
    by auto
  show "model c' =
           foldl (\<lambda>m j. snd (snd (add_1inducing env m (?locs ! j) (ediff c) True))) ?m
             (filter (\<lambda>j. j \<notin> set ?i) [0..<natoms (atoms c)])"
    if "natoms (atoms c) \<le> length ?locs"
  proof -
    from that have "\<forall>j\<in>set [0..<natoms (atoms c)]. j < length ?locs" by auto
    from initiate_loop_foldl[OF this, of env "ediff c" ?i ?m] l c' show ?thesis by simp
  qed
qed

lemma get_covloss_model: "get_covloss env c = Inr (beta, c') \<Longrightarrow> model c' = model c"
  by (auto simp: get_covloss_def Let_def split: sum.splits if_splits prod.splits)

lemma update_inducing_body_data:
  assumes "update_inducing_body env s = Inr (Continue s') \<or>
           update_inducing_body env s = Inr (Break s')"
  shows "data (model (this s')) = data (model (this s))"
proof -
  from assms obtain r where b: "update_inducing_body env s = Inr r"
    and r: "r = Continue s' \<or> r = Break s'" by auto
  from b show ?thesis
  proof (cases rule: update_inducing_body_cases)
    case full
    with r show ?thesis by auto
  next
    case (pass beta c1 c2 k l)
    from get_covloss_model[OF pass(2)] pass(4) have c2: "model c2 = model (this s)" by auto
    obtain added delta m where a: "add_1inducing env (model c2) l
        (if length (X (model c2)) > 1 then ediff c2 else tiny) False = (added, delta, m)"
      by (metis prod_cases3)
    from add_1inducing_X[OF a] have "data m = data (model c2)" by simp
    with pass(6) r a c2 show ?thesis
      by (auto simp: covdiff_add_def ediff_add_def Let_def add_inducing_X
          split: if_splits sum.splits)
  qed
qed

lemma update_inducing_data:
  assumes "update_inducing env c = Some (Inr (m, c'))"
  shows "data (model c') = data (model c)"
proof -
  let ?s0 = "\<lparr>this = c\<lparr>blind := False\<rparr>, added_beta = 0, added_diff = 0, added_indices = []\<rparr>"
  from assms obtain s where w: "while_true env ?s0 = Some (Inr s)" and c': "c' = this s"
    by (auto simp: update_inducing_def split: option.splits sum.splits)
  have "data (model (this s)) = data (model c)"
    by (rule while_true_invariant[OF w, where I="\<lambda>s. data (model (this s)) = data (model c)"])
       (use update_inducing_body_data in auto)
  with c' show ?thesis by simp
qed

lemma update_data_ndata:
  "update_data env c tf = Inr (n, c') \<Longrightarrow> ndata (model c) \<le> ndata (model c')"
  using update_data_redundant[of env c tf] update_data_accepted[of env c tf]
  by (cases "redundant env (model c) (snapshot env c tf) (ediff c) (fdiff c)")
     (auto simp: ndata_def make_munu_X remake_X)

lemma update_ndata:
  assumes "update env c = Some (Inr (mn, c'))"
  shows "ndata (model c) \<le> ndata (model c')"
proof -
  from assms obtain m c1 where u: "update_inducing env c = Some (Inr (m, c1))"
    and r: "c' = c1 \<or> (\<exists>n. update_data env c1 (\<not> blind c1) = Inr (n, c'))"
    by (auto simp: update_def split: option.splits sum.splits if_splits prod.splits)
  from update_inducing_data[OF u] have "ndata (model c1) = ndata (model c)"
    by (simp add: ndata_def)
  with r show ?thesis by (auto dest: update_data_ndata)
qed

lemma active_learning_ndata:
  assumes "active_learning env skip c = Some (Inr c')"
  shows "ndata (model c) \<le> ndata (model c')"
proof (cases skip)
  case True
  with assms show ?thesis by (simp add: active_learning_def)
next
  case False
  with assms obtain mn c1 where u: "update env c = Some (Inr (mn, c1))"
    and r: "c' = c1 \<or> (\<exists>e r. calculate_results env c1 r = Inr (e, c'))"
    by (auto simp: active_learning_def split: option.splits sum.splits if_splits prod.splits)
  from update_ndata[OF u] r show ?thesis by (auto dest: calculate_results_cache)
qed

lemma bias_and_step_step: "bias_and_step env c = Inr c' \<Longrightarrow> step c' = Suc (step c)"
  by (auto simp: bias_and_step_def dest!: add_bias_frame split: if_splits sum.splits prod.splits)
     (metis calc.select_convs(7) calc.surjective calc.update_convs(6,11))

lemma build_a_model_later:
  "step c \<noteq> 0 \<or> ndata (model c) \<noteq> 0 \<Longrightarrow> build_a_model env c = Inr (False, c)"
  by (auto simp: build_a_model_def)

lemma calculate_step_ndata:
  assumes "calculate env c a = Some (Inr c')"
  shows "step c' = Suc (step c) \<and> ndata (model c) \<le> ndata (model c')"
proof -
  from assms obtain skip c1 en c2 c3 where
    b: "build_a_model env (c\<lparr>atoms := a\<rparr>) = Inr (skip, c1)"
    and r: "calculate_results env (kernel_block env c1) True = Inr (en, c2)"
    and al: "active_learning env skip c2 = Some (Inr c3)"
    and bs: "bias_and_step env c3 = Inr c'"
    by (auto simp: calculate_def split: option.splits sum.splits prod.splits)
  from build_a_model_bias_pot[OF b] calculate_results_bias_pot[OF r] active_learning_bias_pot[OF al]
    bias_and_step_step[OF bs]
  have st: "step c' = Suc (step c)" by (simp add: kernel_block_def)
  have 1: "ndata (model c) \<le> ndata (model c1)"
  proof (cases "step c = 0 \<and> ndata (model c) = 0")
    case True then show ?thesis by simp
  next
    case False
    then have "build_a_model env (c\<lparr>atoms := a\<rparr>) = Inr (False, c\<lparr>atoms := a\<rparr>)"
      by (intro build_a_model_later) auto
    with b show ?thesis by auto
  qed
  from calculate_results_cache[OF r] have 2: "model c2 = model c1" by (simp add: kernel_block_def)
  from bias_and_step_cache[OF bs] have 3: "model c' = model c3" by simp
  from 1 2 3 active_learning_ndata[OF al] st show ?thesis by simp
qed

text \<open>
  C5. A step that starts with the step counter at 0 on a model without training
  data, and returns, has bootstrapped the model: \<^verbatim>\<open>initiate_model\<close> ran and \<^verbatim>\<open>skip\<close> is
  set. The training set is the one snapshot of the whole configuration, labelled by
  the reference calculator. The inducing set starts with the representatives, one
  for every species that is present and no two of one species; what follows them
  are local environments of the other atoms, and the model is the one that results
  from asking it, in the order of the atoms, to add each of the other atoms at the
  threshold \<^verbatim>\<open>ediff\<close>. The block of active learning leaves the state as it is (no
  \<^verbatim>\<open>update\<close>). After the step the counter is 1 and the model holds one
  configuration, so no later step can bootstrap again, and the training set never
  becomes empty.
\<close>

theorem bootstrap_once:
  assumes first: "step c = 0" and empty: "ndata (model c) = 0"
    and run: "calculate env c a = Some (Inr c')"
  shows "\<exists>c1 en c2 rest.
           build_a_model env (c\<lparr>atoms := a\<rparr>) = Inr (True, c1) \<and>
           initiate_model env (c\<lparr>atoms := a\<rparr>) = Inr c1 \<and>
           data (model c1) = [snapshot env (c\<lparr>atoms := a\<rparr>) False] \<and>
           X (model c1) = map (\<lambda>j. gathered a ! j) (first_of_each_atom_type a) @ rest \<and>
           set rest \<subseteq> {gathered a ! j | j. j < natoms a \<and> j \<notin> set (first_of_each_atom_type a)} \<and>
           distinct (map number (map (\<lambda>j. gathered a ! j) (first_of_each_atom_type a))) \<and>
           set (map number (map (\<lambda>j. gathered a ! j) (first_of_each_atom_type a))) =
             set (map number (gathered a)) \<and>
           model c1 =
             foldl (\<lambda>m j. snd (snd (add_1inducing env m (gathered a ! j) (ediff c) True)))
               (set_data env (model c) [snapshot env (c\<lparr>atoms := a\<rparr>) False]
                  (map (\<lambda>j. gathered a ! j) (first_of_each_atom_type a)))
               (filter (\<lambda>j. j \<notin> set (first_of_each_atom_type a)) [0..<natoms a]) \<and>
           calculate_results env (kernel_block env c1) True = Inr (en, c2) \<and>
           active_learning env True c2 = Some (Inr c2) \<and>
           bias_and_step env c2 = Inr c' \<and>
           step c' = 1 \<and> ndata (model c') = 1 \<and>
           (\<forall>a2. build_a_model env (c'\<lparr>atoms := a2\<rparr>) = Inr (False, c'\<lparr>atoms := a2\<rparr>)) \<and>
           (\<forall>a2 c2'. calculate env c' a2 = Some (Inr c2') \<longrightarrow>
              step c2' = 2 \<and> 1 \<le> ndata (model c2'))"
proof -
  let ?c = "c\<lparr>atoms := a\<rparr>"
  from run obtain skip c1 en c2 c3 where
    b: "build_a_model env ?c = Inr (skip, c1)"
    and r: "calculate_results env (kernel_block env c1) True = Inr (en, c2)"
    and al: "active_learning env skip c2 = Some (Inr c3)"
    and bs: "bias_and_step env c3 = Inr c'"
    by (auto simp: calculate_def split: option.splits sum.splits prod.splits)
  from b first empty have skip: "skip" and im: "initiate_model env ?c = Inr c1"
    by (auto simp: build_a_model_def split: sum.splits)
  from al skip have c3: "c3 = c2" by (simp add: active_learning_def)
  note res = initiate_model_result[OF im]
  have d: "data (model c1) = [snapshot env ?c False]" using res(1) .
  from res(2) obtain rest where
    x: "X (model c1) = map (\<lambda>j. gathered a ! j) (first_of_each_atom_type a) @ rest"
    and rs: "set rest \<subseteq> {gathered a ! j | j. j < natoms a \<and> j \<notin> set (first_of_each_atom_type a)}"
    by auto
  have na: "natoms a \<le> length (gathered a)"
  proof (rule ccontr)
    assume "\<not> natoms a \<le> length (gathered a)"
    then have lt: "length (gathered a) < natoms a" by simp
    have cs: "conf (snapshot env ?c False) = a" by (simp add: snapshot_def Let_def)
    have "\<exists>e. initiate_loop env ed (gathered a) (first_of_each_atom_type a) js m = Inl e"
      if "length (gathered a) \<in> set js" for js ed m
      using that first_of_each_atom_type_props(1)[of a]
      by (induction js arbitrary: m) auto
    from this[of "[0..<natoms a]" "ediff ?c"
        "set_data env (model ?c) [snapshot env ?c False]
           (map (\<lambda>j. gathered a ! j) (first_of_each_atom_type a))"] lt
    obtain e where "initiate_loop env (ediff ?c) (gathered a) (first_of_each_atom_type a)
        [0..<natoms a] (set_data env (model ?c) [snapshot env ?c False]
           (map (\<lambda>j. gathered a ! j) (first_of_each_atom_type a))) = Inl e"
      by auto
    with im show False
      by (simp add: initiate_model_def Let_def cs)
  qed
  have f: "model c1 =
             foldl (\<lambda>m j. snd (snd (add_1inducing env m (gathered a ! j) (ediff c) True)))
               (set_data env (model c) [snapshot env ?c False]
                  (map (\<lambda>j. gathered a ! j) (first_of_each_atom_type a)))
               (filter (\<lambda>j. j \<notin> set (first_of_each_atom_type a)) [0..<natoms a])"
    using res(3) na by simp
  from calculate_step_ndata[OF run] first have st: "step c' = 1" by simp
  from calculate_results_cache[OF r] bias_and_step_cache[OF bs] c3
  have "model c' = model c1" by (simp add: kernel_block_def)
  with d have nd: "ndata (model c') = 1" by (simp add: ndata_def)
  have later: "build_a_model env (c'\<lparr>atoms := a2\<rparr>) = Inr (False, c'\<lparr>atoms := a2\<rparr>)" for a2
    by (rule build_a_model_later) (simp add: st)
  have next_step: "step c2' = 2 \<and> 1 \<le> ndata (model c2')"
    if "calculate env c' a2 = Some (Inr c2')" for a2 c2'
    using calculate_step_ndata[OF that] st nd by simp
  have b': "build_a_model env ?c = Inr (True, c1)" using b skip by simp
  have al': "active_learning env True c2 = Some (Inr c2)" using al skip c3 by simp
  have bs': "bias_and_step env c2 = Inr c'" using bs c3 by simp
  note p = first_of_each_atom_type_props(2,3)[of a]
  have l2: "\<forall>a2. build_a_model env (c'\<lparr>atoms := a2\<rparr>) = Inr (False, c'\<lparr>atoms := a2\<rparr>)"
    using later by blast
  have n2: "\<forall>a2 c2'. calculate env c' a2 = Some (Inr c2') \<longrightarrow>
              step c2' = 2 \<and> 1 \<le> ndata (model c2')"
    using next_step by blast
  show ?thesis
    apply (rule exI[of _ c1], rule exI[of _ en], rule exI[of _ c2], rule exI[of _ rest])
    apply (intro conjI)
                  apply (rule b' im d x rs p f r al' bs' st nd l2 n2)+
    done
qed

lemma first_of_each_atom_type7: "first_of_each_atom_type atoms7 = [0, 3]"
  by (simp add: first_of_each_atom_type_def atoms7_def locs7_def loc_of_def)

lemma snapshot7: "snapshot env7 (calc0\<lparr>atoms := atoms7\<rparr>) False = snap7"
  by (simp add: snapshot_def snap7_def exact_labels_def env7_def atoms7_def zeros_like_def Let_def)

lemma add_1inducing7:
  "snd (snd (add_1inducing env7 m l (1 / 10) True)) =
     m\<lparr>X := X m @ [l], mu := map (\<lambda>_. 0) (X m @ [l]),
       Mi := \<lparr>size1 = Suc (length (X m)), entries = []\<rparr>,
       choli := \<lparr>size1 = Suc (length (X m)), entries = []\<rparr>\<rparr>"
  by (simp add: add_1inducing_def add_inducing_def remake_def env7_def Let_def)

lemma posterior7:
  "posterior env7 xs ds = (map (\<lambda>_. 0) xs, \<lparr>size1 = length xs, entries = []\<rparr>,
                           \<lparr>size1 = length xs, entries = []\<rparr>)"
  by (simp add: env7_def)

lemma initiate_model7:
  "initiate_model env7 (calc0\<lparr>atoms := atoms7\<rparr>) = Inr (calc0\<lparr>atoms := atoms7, model := model7\<rparr>)"
proof -
  have e: "ediff (calc0\<lparr>atoms := atoms7\<rparr>) = 1 / 10" "model (calc0\<lparr>atoms := atoms7\<rparr>) = model0"
    by (simp_all add: calc0_def init_def)
  have c: "conf snap7 = atoms7" by (simp add: snap7_def)
  have n: "[0..<natoms atoms7] = [0, 1, 2, 3, 4, 5, 6]" "gathered atoms7 = locs7"
    by (simp_all add: atoms7_def eval_nat_numeral)
  show ?thesis
    unfolding initiate_model_def snapshot7 Let_def c first_of_each_atom_type7 e n
    by (simp add: add_1inducing7 set_data_def remake_def model0_def posterior7 locs7_def model7_def)
qed


lemma kernel_block7:
  "kernel_block env7 (calc0\<lparr>atoms := atoms7, model := model7\<rparr>) =
     calc0\<lparr>atoms := atoms7, model := model7, cov := cov7\<rparr>"
  by (simp add: kernel_block_def kern_def model7_def atoms7_def locs7_def loc_of_def env7_def
      cov7_def)

lemma grads7:
  "atoms c = atoms7 \<Longrightarrow> d_xyz e = None \<Longrightarrow> d_lll e = None \<Longrightarrow>
   grads env7 c e r =
     Inr ([[0, 0, 0], [0, 0, 0], [0, 0, 0], [0, 0, 0], [0, 0, 0], [0, 0, 0], [0, 0, 0]],
          [[0, 0, 0], [0, 0, 0], [0, 0, 0]])"
  by (simp add: grads_def atoms7_def zeros_like_def outer_sum_def upt3 Let_def)

lemma calculate_results7b:
  "calculate_results env7 (calc0\<lparr>atoms := atoms7, model := model7, cov := cov7\<rparr>) True =
     Inr (0, calc0\<lparr>atoms := atoms7, model := model7, cov := cov7, results := results calc7\<rparr>)"
proof -
  let ?c = "calc0\<lparr>atoms := atoms7, model := model7, cov := cov7\<rparr>"
  have a: "atoms ?c = atoms7" by simp
  have w: "weighted_sum env7 ?c (mu model7) = Inr \<lparr>sval = 0, d_xyz = None, d_lll = None\<rparr>"
    by (simp add: weighted_sum_def matvec_def model7_def cov7_def dot_def env7_def)
  have nd: "\<not> is_distributed atoms7" by (simp add: atoms7_def)
  show ?thesis
    by (simp add: calculate_results_def w grads7[OF a] nd flat_voigt_def)
       (simp add: calc7_def)
qed

lemma calc0_fields:
  "step calc0 = 0" "ndata (model calc0) = 0" "bias calc0 = None" "model calc0 = model0"
  "ediff calc0 = 1 / 10"
  by (simp_all add: calc0_def init_def ndata_def model0_def)

lemma calculate7:
  "calculate env7 calc0 atoms7 =
     Some (Inr (calc0\<lparr>atoms := atoms7, model := model7, cov := cov7, results := results calc7,
                    step := 1\<rparr>))"
proof -
  have f: "step calc0 = 0" "ndata (model calc0) = 0" "bias calc0 = None"
    by (rule calc0_fields)+
  have b: "build_a_model env7 (calc0\<lparr>atoms := atoms7\<rparr>) =
             Inr (True, calc0\<lparr>atoms := atoms7, model := model7\<rparr>)"
    by (simp add: build_a_model_def f initiate_model7)
  show ?thesis
    by (simp add: calculate_def b kernel_block7 calculate_results7b active_learning_def
        bias_and_step_def f)
qed

theorem bootstrap_once_witness:
  "\<exists>c'. calculate env7 calc0 atoms7 = Some (Inr c') \<and>
     step calc0 = 0 \<and> ndata (model calc0) = 0 \<and>
     first_of_each_atom_type atoms7 = [0, 3] \<and>
     take 2 (X (model c')) = [loc_of 6 0, loc_of 8 3] \<and> length (X (model c')) = 7 \<and>
     data (model c') = [snap7] \<and> step c' = 1 \<and> ndata (model c') = 1 \<and>
     build_a_model env7 (c'\<lparr>atoms := atoms7\<rparr>) = Inr (False, c'\<lparr>atoms := atoms7\<rparr>)"
proof -
  let ?c' = "calc0\<lparr>atoms := atoms7, model := model7, cov := cov7, results := results calc7,
                    step := 1\<rparr>"
  have f: "step calc0 = 0" "ndata (model calc0) = 0"
    by (rule calc0_fields)+
  have x: "take 2 (X (model ?c')) = [loc_of 6 0, loc_of 8 3]" "length (X (model ?c')) = 7"
    "data (model ?c') = [snap7]"
    by (simp_all add: model7_def)
  from bootstrap_once[OF f calculate7]
  have "step ?c' = 1" "ndata (model ?c') = 1"
    "build_a_model env7 (?c'\<lparr>atoms := atoms7\<rparr>) = Inr (False, ?c'\<lparr>atoms := atoms7\<rparr>)"
    by blast+
  with calculate7 f first_of_each_atom_type7 x show ?thesis by blast
qed

subsection \<open>The greedy loop on known species\<close>

text \<open>
  A run of the loop that ends within \<open>n\<close> passes is a run of the loop.
\<close>

lemma passes_while_true: "passes n env s = Some r \<Longrightarrow> while_true env s = Some r"
proof (induction n arbitrary: s)
  case 0 then show ?case by simp
next
  case (Suc n)
  show ?case
  proof (cases "update_inducing_body env s")
    case (Inl e)
    with Suc.prems show ?thesis by (subst while_true.simps) simp
  next
    case (Inr l)
    show ?thesis
    proof (cases l)
      case (Continue s')
      with Inr Suc.prems have "passes n env s' = Some r" by simp
      from Suc.IH[OF this] Inr Continue show ?thesis by (subst while_true.simps) simp
    next
      case (Break s')
      with Inr Suc.prems show ?thesis by (subst while_true.simps) simp
    qed
  qed
qed

text \<open>
  When the model knows the species of every atom, a pass that does not end the loop
  has added its candidate.
\<close>

lemma update_inducing_body_known:
  assumes known: "\<forall>l\<in>set (gathered (atoms (this s))). number l \<in> set (species (model (this s)))"
    and b: "update_inducing_body env s = Inr (Continue s')"
  shows "length (added_indices s') = Suc (length (added_indices s)) \<and>
         length (added_indices s) < natoms (atoms (this s)) \<or>
         length (added_indices s) > natoms (atoms (this s))"
  using b
proof (cases rule: update_inducing_body_cases)
  case full
  then show ?thesis by simp
next
  case (pass beta c1 c2 k l)
  from get_covloss_model[OF pass(2)] get_covloss_fields[OF pass(2)] pass(4)
  have c2: "model c2 = model (this s)" "atoms c2 = atoms (this s)" by auto
  from pass(5) c2 have "l \<in> set (gathered (atoms (this s)))"
    by (auto simp: local_env_def split: if_splits)
  with known c2 have kn: "number l \<in> set (species (model c2))" by simp
  have "added_indices s' = added_indices s @ [k]"
  proof (cases "beta ! k > covdiff c2")
    case True
    with kn pass(6) have "covdiff_add env s c2 k l = Inr (Continue s')" by simp
    from covdiff_add_extends[OF this] show ?thesis by auto
  next
    case False
    with kn pass(6) have "ediff_add env s c2 k l = Inr (Continue s')" by simp
    from ediff_add_extends[OF this] show ?thesis by auto
  qed
  with pass(1) show ?thesis by auto
qed

lemma passes_terminate:
  assumes "\<forall>l\<in>set (gathered (atoms (this s))). number l \<in> set (species (model (this s)))"
    and "length (added_indices s) + n = natoms (atoms (this s))"
  shows "\<exists>r. passes (Suc n) env s = Some r"
  using assms
proof (induction n arbitrary: s)
  case 0
  then have "update_inducing_body env s = Inr (Break s)" by (simp add: update_inducing_body_def)
  then show ?case by simp
next
  case (Suc n)
  show ?case
  proof (cases "update_inducing_body env s")
    case (Inl e)
    then show ?thesis by simp
  next
    case (Inr l)
    show ?thesis
    proof (cases l)
      case (Break s')
      with Inr show ?thesis by simp
    next
      case (Continue s')
      with Inr have b: "update_inducing_body env s = Inr (Continue s')" by simp
      from update_inducing_body_known[OF Suc.prems(1) b] Suc.prems(2)
      have len: "length (added_indices s') = Suc (length (added_indices s))" by auto
      from update_inducing_body_effect[OF b, of s']
      have same: "atoms (this s') = atoms (this s)"
        "species (model (this s')) = species (model (this s))" by auto
      have "\<exists>r. passes (Suc n) env s' = Some r"
        by (rule Suc.IH) (use Suc.prems len same in auto)
      with b show ?thesis by simp
    qed
  qed
qed

lemma update_inducing_terminates:
  assumes "\<forall>l\<in>set (gathered (atoms c)). number l \<in> set (species (model c))"
  shows "\<exists>r. update_inducing env c = Some r \<and>
           passes (Suc (natoms (atoms c))) env
             \<lparr>this = c\<lparr>blind := False\<rparr>, added_beta = 0, added_diff = 0, added_indices = []\<rparr>
             \<noteq> None"
proof -
  let ?s0 = "\<lparr>this = c\<lparr>blind := False\<rparr>, added_beta = 0, added_diff = 0, added_indices = []\<rparr>"
  have "\<exists>r. passes (Suc (natoms (atoms c))) env ?s0 = Some r"
    by (rule passes_terminate) (use assms in auto)
  then obtain r where p: "passes (Suc (natoms (atoms c))) env ?s0 = Some r" ..
  from passes_while_true[OF p] have "while_true env ?s0 = Some r" .
  with p show ?thesis by (auto simp: update_inducing_def split: sum.splits)
qed

text \<open>
  The covariance loss has one entry for every atom of the configuration, so that the
  candidate of a pass is an atom that the round has not added yet.
\<close>

lemma tdiv_length: "tdiv c a = Inr d \<Longrightarrow> length c = length a \<Longrightarrow> length d = length c"
  by (auto simp: tdiv_def)

lemma gather_length:
  assumes "gather env c x = Inr t"
  shows "length t = natoms (atoms c)"
proof -
  from assms obtain x' where
    x': "index_put (replicate (natoms (atoms c)) 0) (indices (atoms c)) x = Inr x'"
    and t: "all_reduce1 env x' = Inr t"
    by (cases "index_put (replicate (natoms (atoms c)) 0) (indices (atoms c)) x")
       (simp_all add: gather_def)
  from index_put_zero(1)[OF x'] have "length x' = natoms (atoms c)" .
  with t show ?thesis by (auto simp: all_reduce1_def split: if_splits)
qed

lemma get_covloss_length:
  assumes g: "get_covloss env c = Inr (beta, c')"
    and wf: "is_distributed (atoms c) \<or>
             (size0 (cov c) = natoms (atoms c) \<and> length (loc (atoms c)) = natoms (atoms c))"
  shows "length beta = natoms (atoms c)"
proof (cases "is_distributed (atoms c)")
  case True
  show ?thesis
  proof (rule get_covloss_cases[OF g])
    fix cc
    assume at: "atoms c' = atoms c"
      and "if is_distributed (atoms c)
           then gather env c' (map (\<lambda>x. sqrt (max (1 - x) 0)) cc) = Inr beta
           else beta = map (\<lambda>x. sqrt (max (1 - x) 0)) cc"
    with True have "gather env c' (map (\<lambda>x. sqrt (max (1 - x) 0)) cc) = Inr beta" by simp
    from gather_length[OF this] at show ?thesis by simp
  qed
next
  case False
  with wf have w: "size0 (cov c) = natoms (atoms c)" "length (loc (atoms c)) = natoms (atoms c)"
    by auto
  from g obtain b where b: "matmul_T (choli (model c)) (cov c) = Inr b"
    by (auto simp: get_covloss_def split: sum.splits)
  then have "size1 b = size0 (cov c)" by (auto simp: matmul_T_def split: if_splits)
  then have l: "length (sqsum_dim0 b) = natoms (atoms c)" using w by (simp add: sqsum_dim0_def)
  show ?thesis
  proof (cases "normalized c = Some True")
    case True
    with g b False l show ?thesis by (auto simp: get_covloss_def Let_def)
  next
    case nt: False
    let ?alpha = "map (\<lambda>x. kern_fn env x x) (loc (atoms c))"
    from g b False nt obtain cc where cc: "tdiv (sqsum_dim0 b) ?alpha = Inr cc"
      by (cases "tdiv (sqsum_dim0 b) ?alpha")
         (simp_all add: get_covloss_def Let_def split: if_splits)
    from tdiv_length[OF cc] l w have lc: "length cc = natoms (atoms c)" by simp
    from g b False nt cc have "beta = map (\<lambda>x. sqrt (max (1 - x) 0)) cc"
      by (cases "normalized c = None")
         (simp_all add: get_covloss_def Let_def split: if_splits)
    with lc show ?thesis by simp
  qed
qed

lemma pick_fresh:
  assumes d: "distinct added" and sub: "set added \<subseteq> {..<n}" and lt: "length added < n"
    and len: "length beta = n"
  shows "\<exists>k. pick (argsort_descending beta) added = Inr k \<and> k < n \<and> k \<notin> set added"
proof -
  have q: "set (argsort_descending beta) = {..<n}"
    by (simp add: argsort_descending_def len atLeast_upt)
  have "set added \<noteq> {..<n}"
  proof
    assume "set added = {..<n}"
    then have "card (set added) = n" by simp
    with d lt show False by (simp add: distinct_card)
  qed
  with sub obtain k0 where k0: "k0 < n" "k0 \<notin> set added" by blast
  with q have "k0 \<in> set (filter (\<lambda>k. k \<notin> set added) (argsort_descending beta))" by simp
  then obtain k ks where f: "filter (\<lambda>k. k \<notin> set added) (argsort_descending beta) = k # ks"
    by (cases "filter (\<lambda>k. k \<notin> set added) (argsort_descending beta)") simp_all
  then have "k \<in> set (filter (\<lambda>k. k \<notin> set added) (argsort_descending beta))" by simp
  with q have "k < n" "k \<notin> set added" by simp_all
  with f show ?thesis by (simp add: pick_def)
qed

text \<open>
  On a state whose cache has a row for every atom, the indices that a round has added
  are indices of atoms, and no index is among them twice.
\<close>

lemma update_inducing_body_distinct:
  assumes b: "update_inducing_body env s = Inr (Continue s') \<or>
              update_inducing_body env s = Inr (Break s')"
    and wf: "is_distributed (atoms (this s)) \<or>
             (size0 (cov (this s)) = natoms (atoms (this s)) \<and>
              length (loc (atoms (this s))) = natoms (atoms (this s)))"
    and d: "distinct (added_indices s)" "set (added_indices s) \<subseteq> {..<natoms (atoms (this s))}"
  shows "distinct (added_indices s') \<and> set (added_indices s') \<subseteq> {..<natoms (atoms (this s'))} \<and>
         (is_distributed (atoms (this s')) \<or>
            (size0 (cov (this s')) = natoms (atoms (this s')) \<and>
             length (loc (atoms (this s'))) = natoms (atoms (this s'))))"
proof -
  from b obtain r where br: "update_inducing_body env s = Inr r"
    and r: "r = Continue s' \<or> r = Break s'" by auto
  note eff = update_inducing_body_effect[OF br r]
  note at = eff[THEN conjunct1]
  note alt = eff[THEN conjunct2, THEN conjunct2]
  show ?thesis
  proof (cases "added_indices s' = added_indices s \<and> model (this s') = model (this s) \<and>
           cov (this s') = cov (this s)")
    case True
    with d wf at show ?thesis by simp
  next
    case False
    have "\<exists>beta c1 k l.
             get_covloss env (this s) = Inr (beta, c1) \<and>
             pick (argsort_descending beta) (added_indices s) = Inr k \<and>
             local_env (atoms (this s)) k = Inr l \<and>
             number l \<in> set (species (model (this s))) \<and>
             r = Continue s' \<and>
             added_indices s' = added_indices s @ [k] \<and>
             X (model (this s')) = X (model (this s)) @ [l] \<and>
             size1 (cov (this s')) = size1 (cov (this s)) + 1 \<and>
             entries (cov (this s')) =
               map2 (\<lambda>row la. row @ [kern_fn env la l]) (entries (cov (this s)))
                 (loc (atoms (this s)))"
      using alt False by (elim disjE) (erule (1) notE, assumption)
    then obtain beta c1 k l where grew: "get_covloss env (this s) = Inr (beta, c1)"
        "pick (argsort_descending beta) (added_indices s) = Inr k"
        "added_indices s' = added_indices s @ [k]"
        "entries (cov (this s')) =
           map2 (\<lambda>row la. row @ [kern_fn env la l]) (entries (cov (this s)))
             (loc (atoms (this s)))"
      by (elim exE conjE) (rule that)
    have ne: "length (added_indices s) \<noteq> natoms (atoms (this s))"
      using br grew(3) r by (auto simp: update_inducing_body_def split: if_splits)
    have "card (set (added_indices s)) \<le> card {..<natoms (atoms (this s))}"
      using d(2) by (intro card_mono) auto
    with d(1) ne have lt: "length (added_indices s) < natoms (atoms (this s))"
      by (simp add: distinct_card)
    from get_covloss_length[OF grew(1) wf] have len: "length beta = natoms (atoms (this s))" .
    from pick_fresh[OF d(1,2) lt len] grew(2)
    have k: "k < natoms (atoms (this s))" "k \<notin> set (added_indices s)" by auto
    have rows: "size0 (cov (this s')) = natoms (atoms (this s))"
      if "size0 (cov (this s)) = natoms (atoms (this s))"
         "length (loc (atoms (this s))) = natoms (atoms (this s))"
      using that grew(4) by (simp add: size0_def)
    have 1: "distinct (added_indices s')" using k d grew(3) by simp
    have 2: "set (added_indices s') \<subseteq> {..<natoms (atoms (this s'))}"
      using k d grew(3) at by simp
    have 3: "is_distributed (atoms (this s')) \<or>
            (size0 (cov (this s')) = natoms (atoms (this s')) \<and>
             length (loc (atoms (this s'))) = natoms (atoms (this s')))"
      using wf rows at by (cases "is_distributed (atoms (this s))") simp_all
    from 1 2 3 show ?thesis by simp
  qed
qed

lemma while_true_distinct:
  assumes w: "while_true env s = Some (Inr s')"
    and wf: "is_distributed (atoms (this s)) \<or>
             (size0 (cov (this s)) = natoms (atoms (this s)) \<and>
              length (loc (atoms (this s))) = natoms (atoms (this s)))"
    and d: "distinct (added_indices s)" "set (added_indices s) \<subseteq> {..<natoms (atoms (this s))}"
  shows "distinct (added_indices s') \<and> set (added_indices s') \<subseteq> {..<natoms (atoms (this s'))}"
proof -
  define I where "I = (\<lambda>s::round.
          distinct (added_indices s) \<and> set (added_indices s) \<subseteq> {..<natoms (atoms (this s))} \<and>
          (is_distributed (atoms (this s)) \<or>
            (size0 (cov (this s)) = natoms (atoms (this s)) \<and>
             length (loc (atoms (this s))) = natoms (atoms (this s)))))"
  have init: "I s" using wf d by (simp add: I_def)
  have step: "I t'" if "I t" "update_inducing_body env t = Inr (Continue t') \<or>
                 update_inducing_body env t = Inr (Break t')" for t t'
  proof -
    from that(1) have a: "is_distributed (atoms (this t)) \<or>
             (size0 (cov (this t)) = natoms (atoms (this t)) \<and>
              length (loc (atoms (this t))) = natoms (atoms (this t)))"
      and b: "distinct (added_indices t)"
      and c: "set (added_indices t) \<subseteq> {..<natoms (atoms (this t))}"
      by (simp_all add: I_def)
    from update_inducing_body_distinct[OF that(2) a b c] show ?thesis by (simp add: I_def)
  qed
  have "I s'" by (rule while_true_invariant[OF w, where I=I, OF init step])
  then show ?thesis by (simp add: I_def)
qed

end
